theory Spec2Isabelle
  imports Main "HOL-Library.Monad_Syntax"
begin

section \<open>The document store of bike-cli (src/services/db.js)\<close>

text \<open>
  The store is one JSON document, \<^verbatim>\<open>data.json\<close>, with the collections
  \<^verbatim>\<open>stravaTokens\<close>, \<^verbatim>\<open>bikes\<close> and \<^verbatim>\<open>activities\<close> (the collections
  \<^verbatim>\<open>components\<close> and \<^verbatim>\<open>maintenanceEvents\<close> and the \<^verbatim>\<open>meta\<close> object are never read
  or written by the authentication and synchronisation code and are left out).
  Collections are JavaScript arrays, hence lists: order and duplicates matter.

  Conventions of the embedding:
  \<^item> a JavaScript number is an \<^typ>\<open>int\<close> (the code only copies and compares them);
  \<^item> an ISO time stamp made by \<^verbatim>\<open>new Date().toISOString()\<close> is the \<^typ>\<open>int\<close> of its epoch
    milliseconds, so that \<^verbatim>\<open>Date.parse\<close> of it is that number;
  \<^item> a property that may be \<^verbatim>\<open>null\<close>, \<^verbatim>\<open>undefined\<close> or absent is an \<^typ>\<open>'a option\<close>;
  \<^item> every read of the clock is an explicit argument \<open>now\<close>; the two reads inside one
    call of an upsert are taken at the same instant;
  \<^item> record fields carry a prefix (\<open>tok_\<close>, \<open>bike_\<close>, \<open>act_\<close>, ...) in front of the
    property name of the source, since field names are global in a theory.
\<close>

type_synonym timestamp = int

record stravaToken =
  tok_athleteId :: "int option"
  tok_accessToken :: string
  tok_refreshToken :: string
  tok_expiresAt :: int
  tok_scopes :: "string option"
  tok_createdAt :: "timestamp option"
  tok_updatedAt :: "timestamp option"

record bike =
  bike_id :: string
  bike_name :: string
  bike_type :: "string option"
  bike_stravaGearId :: "string option"
  bike_isDefault :: bool
  bike_notes :: "string option"
  bike_createdAt :: "timestamp option"
  bike_updatedAt :: "timestamp option"

text \<open>A remote activity, as one element of a page of \<^verbatim>\<open>GET /athlete/activities\<close>.\<close>

record remote_activity =
  ra_id :: int
  ra_gear_id :: "string option"
  ra_start_date :: string
  ra_distance :: "int option"
  ra_moving_time :: "int option"
  ra_elapsed_time :: "int option"
  ra_total_elevation_gain :: "int option"
  ra_average_speed :: "int option"
  ra_type :: "string option"

text \<open>
  A local activity record. \<open>act_rawJson\<close> is \<^verbatim>\<open>JSON.stringify(activity)\<close>, represented
  by the remote activity it serialises.
\<close>

record activity =
  act_id :: int
  act_athleteId :: "int option"
  act_bikeId :: "string option"
  act_stravaGearId :: "string option"
  act_startDate :: string
  act_distanceM :: int
  act_movingTimeS :: int
  act_elapsedTimeS :: int
  act_elevGainM :: int
  act_averageSpeedMps :: int
  act_type :: "string option"
  act_rawJson :: remote_activity
  act_createdAt :: "timestamp option"

record data =
  stravaTokens :: "stravaToken list"
  bikes :: "bike list"
  activities :: "activity list"

text \<open>
  \<^verbatim>\<open>arr.findIndex(p)\<close> and the assignment \<^verbatim>\<open>arr[i] = v\<close> / \<^verbatim>\<open>arr.push(v)\<close> that every
  upsert of db.js performs with it. \<open>findIndex\<close> returns \<open>None\<close> for \<open>-1\<close>.
\<close>

fun findIndex :: "('a \<Rightarrow> bool) \<Rightarrow> 'a list \<Rightarrow> nat option" where
  "findIndex p [] = None"
| "findIndex p (x # xs) =
     (if p x then Some 0 else map_option Suc (findIndex p xs))"

definition upsertStravaToken ::
  "timestamp \<Rightarrow> data \<Rightarrow> int option \<Rightarrow> string \<Rightarrow> string \<Rightarrow> int \<Rightarrow> string option \<Rightarrow> data" where
  "upsertStravaToken now d athleteId accessToken refreshToken expiresAt scopes =
     (let existingIndex = findIndex (\<lambda>t. tok_athleteId t = athleteId) (stravaTokens d);
          token = \<lparr> tok_athleteId = athleteId,
                    tok_accessToken = accessToken,
                    tok_refreshToken = refreshToken,
                    tok_expiresAt = expiresAt,
                    tok_scopes = scopes,
                    tok_createdAt = Some now,
                    tok_updatedAt = Some now \<rparr>
      in case existingIndex of
           Some i \<Rightarrow> d\<lparr> stravaTokens := (stravaTokens d)[i := token] \<rparr>
         | None \<Rightarrow> d\<lparr> stravaTokens := stravaTokens d @ [token] \<rparr>)"

text \<open>
  \<^verbatim>\<open>Date.parse(t.updatedAt || t.createdAt || "") || 0\<close>: the first time stamp that is
  present and truthy, and 0 when there is none (\<^verbatim>\<open>Date.parse("")\<close> is \<^verbatim>\<open>NaN\<close>).
\<close>

definition tokenTime :: "stravaToken \<Rightarrow> int" where
  "tokenTime t =
     (case tok_updatedAt t of
        Some u \<Rightarrow> u
      | None \<Rightarrow> (case tok_createdAt t of Some c \<Rightarrow> c | None \<Rightarrow> 0))"

definition getStravaToken :: "data \<Rightarrow> int option \<Rightarrow> stravaToken option" where
  "getStravaToken d athleteId =
     (case athleteId of
        None \<Rightarrow>
          (if stravaTokens d = [] then None
           else foldl (\<lambda>latest token.
                   case latest of
                     None \<Rightarrow> Some token
                   | Some l \<Rightarrow> if tokenTime token \<ge> tokenTime l then Some token else Some l)
                 None (stravaTokens d))
      | Some a \<Rightarrow> find (\<lambda>t. tok_athleteId t = Some a) (stravaTokens d))"


definition deleteStravaToken :: "data \<Rightarrow> int option \<Rightarrow> data" where
  "deleteStravaToken d athleteId =
     d\<lparr> stravaTokens := filter (\<lambda>t. tok_athleteId t \<noteq> athleteId) (stravaTokens d) \<rparr>"

text \<open>
  \<^verbatim>\<open>x || y\<close> on time stamps and strings: a string is falsy when it is absent or empty.
\<close>

definition truthy :: "string option \<Rightarrow> bool" where
  "truthy s = (case s of None \<Rightarrow> False | Some v \<Rightarrow> v \<noteq> [])"

definition orNull :: "string option \<Rightarrow> string option" where
  "orNull s = (if truthy s then s else None)"

definition orZero :: "int option \<Rightarrow> int" where
  "orZero n = (case n of None \<Rightarrow> 0 | Some v \<Rightarrow> v)"

definition upsertBike :: "timestamp \<Rightarrow> data \<Rightarrow> bike \<Rightarrow> data" where
  "upsertBike now d b =
     (let existingIndex = findIndex (\<lambda>x. bike_id x = bike_id b) (bikes d);
          bikeRecord = b\<lparr> bike_createdAt :=
                             (case bike_createdAt b of Some c \<Rightarrow> Some c | None \<Rightarrow> Some now),
                          bike_updatedAt := Some now \<rparr>
      in case existingIndex of
           Some i \<Rightarrow> d\<lparr> bikes := (bikes d)[i := bikeRecord] \<rparr>
         | None \<Rightarrow> d\<lparr> bikes := bikes d @ [bikeRecord] \<rparr>)"

definition getBike :: "data \<Rightarrow> string \<Rightarrow> bike option" where
  "getBike d i = find (\<lambda>b. bike_id b = i) (bikes d)"

definition getBikeByStravaGearId :: "data \<Rightarrow> string option \<Rightarrow> bike option" where
  "getBikeByStravaGearId d g = find (\<lambda>b. bike_stravaGearId b = g) (bikes d)"

definition upsertActivity :: "timestamp \<Rightarrow> data \<Rightarrow> activity \<Rightarrow> data" where
  "upsertActivity now d a =
     (let existingIndex = findIndex (\<lambda>x. act_id x = act_id a) (activities d);
          activityRecord = a\<lparr> act_createdAt :=
                             (case act_createdAt a of Some c \<Rightarrow> Some c | None \<Rightarrow> Some now) \<rparr>
      in case existingIndex of
           Some i \<Rightarrow> d\<lparr> activities := (activities d)[i := activityRecord] \<rparr>
         | None \<Rightarrow> d\<lparr> activities := activities d @ [activityRecord] \<rparr>)"

subsection \<open>Errors and the file\<close>

text \<open>
  Every \<^verbatim>\<open>throw new Error(...)\<close> of the code is a constructor; the wrappers
  \<^verbatim>\<open>Authorization failed: ...\<close> and \<^verbatim>\<open>Sync failed: ...\<close> keep the error they wrap.
\<close>

datatype error =
    StravaApiError nat string
  | NoTokenFound
  | NoValidToken
  | SessionExpired
  | ApiError nat string
  | OAuthError string
  | MissingAuthorizationCode
  | AuthorizationTimeout
  | ListenError string
  | AuthorizationFailed error
  | SyncFailed error

text \<open>
  The file \<^verbatim>\<open>data.json\<close>: \<open>None\<close> when it does not exist. \<open>loadData\<close> parses it, and
  creates it with empty collections when it cannot be read. \<open>modifyData\<close> loads the
  store, awaits the modifier on the loaded object and saves that object afterwards; when the
  modifier throws, the error propagates and \<open>saveData\<close> is not reached. The modifier is an
  asynchronous function: \<open>None\<close> stands for a modifier that never returns. Besides the
  mutated store (or the error) a modifier leaves a result \<open>'w\<close> behind: the variables of the
  enclosing function that it assigns, and the requests it has sent.
\<close>

type_synonym disk = "data option"

definition initialData :: data where
  "initialData = \<lparr> stravaTokens = [], bikes = [], activities = [] \<rparr>"

definition loadData :: "disk \<Rightarrow> data \<times> disk" where
  "loadData f = (case f of Some d \<Rightarrow> (d, f) | None \<Rightarrow> (initialData, Some initialData))"

definition saveData :: "data \<Rightarrow> disk" where
  "saveData d = Some d"

definition modifyData ::
  "(data \<Rightarrow> ((error + data) \<times> 'w) option) \<Rightarrow> disk \<Rightarrow> ((error + data) \<times> 'w \<times> disk) option" where
  "modifyData modifier f =
     (case loadData f of
        (d, f1) \<Rightarrow>
          (case modifier d of
             None \<Rightarrow> None
           | Some (Inl e, w) \<Rightarrow> Some (Inl e, w, f1)
           | Some (Inr d', w) \<Rightarrow> Some (Inr d', w, saveData d')))"

section \<open>Activity synchronisation (src/services/sync.js)\<close>

text \<open>
  \<open>syncActivities\<close> receives the client as an argument and calls one method of it,
  \<^verbatim>\<open>getActivities({after, perPage, page})\<close>, which returns a page, returns \<^verbatim>\<open>null\<close>
  (\<open>Inr None\<close>) or throws. The client is that function; every call is recorded in a
  list of requests.
\<close>

type_synonym page_request = "int \<times> nat \<times> nat"

type_synonym activities_client = "int \<Rightarrow> nat \<Rightarrow> nat \<Rightarrow> error + remote_activity list option"

definition perPage :: nat where
  "perPage = 200"

text \<open>
  The cursor of the window. \<open>since\<close> is the date string of the command line, represented by
  the epoch milliseconds of the date (\<open>None\<close> when the option is absent).
\<close>

definition sinceTimestamp :: "timestamp \<Rightarrow> timestamp option \<Rightarrow> bool \<Rightarrow> int" where
  "sinceTimestamp now since full =
     (let sinceDate = (case since of
                         Some s \<Rightarrow> s
                       | None \<Rightarrow> if full then now - 365 * 24 * 60 * 60 * 1000
                                 else now - 30 * 24 * 60 * 60 * 1000)
      in sinceDate div 1000)"

text \<open>
  The body of \<^verbatim>\<open>for (const activity of activities)\<close>: the record built in lines 70
  to 91 (it has no \<^verbatim>\<open>createdAt\<close>), then the existence check, the counters and the
  \<^verbatim>\<open>push\<close> of lines 93 to 101.
\<close>

definition activityData :: "int option \<Rightarrow> data \<Rightarrow> remote_activity \<Rightarrow> activity" where
  "activityData athleteId d activity =
     (let bikeId = (if truthy (ra_gear_id activity)
                    then (case find (\<lambda>b. bike_stravaGearId b = ra_gear_id activity) (bikes d) of
                            Some b \<Rightarrow> Some (bike_id b)
                          | None \<Rightarrow> None)
                    else None)
      in \<lparr> act_id = ra_id activity,
           act_athleteId = athleteId,
           act_bikeId = bikeId,
           act_stravaGearId = orNull (ra_gear_id activity),
           act_startDate = ra_start_date activity,
           act_distanceM = orZero (ra_distance activity),
           act_movingTimeS = orZero (ra_moving_time activity),
           act_elapsedTimeS = orZero (ra_elapsed_time activity),
           act_elevGainM = orZero (ra_total_elevation_gain activity),
           act_averageSpeedMps = orZero (ra_average_speed activity),
           act_type = orNull (ra_type activity),
           act_rawJson = activity,
           act_createdAt = None \<rparr>)"

definition mergeActivity ::
  "int option \<Rightarrow> data \<times> nat \<times> nat \<Rightarrow> remote_activity \<Rightarrow> data \<times> nat \<times> nat" where
  "mergeActivity athleteId s activity =
     (case s of (d, added, updated) \<Rightarrow>
        let existingActivity = find (\<lambda>a. act_id a = ra_id activity) (activities d)
        in (d\<lparr> activities := activities d @ [activityData athleteId d activity] \<rparr>,
            (if existingActivity \<noteq> None then added else added + 1),
            (if existingActivity \<noteq> None then updated + 1 else updated)))"

text \<open>
  The \<^verbatim>\<open>while (true)\<close> loop of the modifier, lines 58 to 109. Its state is the loaded
  store, the counters \<open>added\<close> and \<open>updated\<close>, the page number and the requests sent so
  far. The result says whether the loop ended by \<^verbatim>\<open>break\<close> (\<open>None\<close>) or by an error
  thrown by the client.
\<close>

type_synonym sync_state = "data \<times> nat \<times> nat \<times> nat \<times> page_request list"

partial_function (option) fetchPages ::
  "activities_client \<Rightarrow> int \<Rightarrow> int option \<Rightarrow> data \<Rightarrow> nat \<Rightarrow> nat \<Rightarrow> nat \<Rightarrow> page_request list
     \<Rightarrow> (error option \<times> sync_state) option" where
  "fetchPages client after athleteId d added updated page reqs =
     (case client after perPage page of
        Inl e \<Rightarrow> Some (Some e, d, added, updated, page, reqs @ [(after, perPage, page)])
      | Inr response \<Rightarrow>
          (case response of
             None \<Rightarrow> Some (None, d, added, updated, page, reqs @ [(after, perPage, page)])
           | Some acts \<Rightarrow>
               if acts = []
               then Some (None, d, added, updated, page, reqs @ [(after, perPage, page)])
               else (case foldl (mergeActivity athleteId) (d, added, updated) acts of
                       (d', added', updated') \<Rightarrow>
                         if length acts < perPage
                         then Some (None, d', added', updated', page,
                                    reqs @ [(after, perPage, page)])
                         else fetchPages client after athleteId
                                d' added' updated' (page + 1)
                                (reqs @ [(after, perPage, page)]))))"

text \<open>
  \<open>syncActivities\<close> returns the counters, or the error; next to it the requests sent and
  the file as it is left.
\<close>

definition syncActivities ::
  "activities_client \<Rightarrow> int option \<Rightarrow> timestamp \<Rightarrow> timestamp option \<Rightarrow> bool \<Rightarrow> disk
     \<Rightarrow> ((error + nat \<times> nat) \<times> page_request list \<times> disk) option" where
  "syncActivities client athleteId now since full f =
     (case modifyData
             (\<lambda>d. map_option
                    (\<lambda>(thrown, d', added, updated, page, reqs).
                       (case thrown of Some e \<Rightarrow> Inl e | None \<Rightarrow> Inr d', (added, updated, reqs)))
                    (fetchPages client (sinceTimestamp now since full) athleteId d 0 0 1 []))
             f of
        None \<Rightarrow> None
      | Some (Inl e, (added, updated, reqs), f') \<Rightarrow> Some (Inl e, reqs, f')
      | Some (Inr d', (added, updated, reqs), f') \<Rightarrow> Some (Inr (added, updated), reqs, f'))"

text \<open>
  For the statements below: the activities of a response (none for \<^verbatim>\<open>null\<close>), and the
  requests for \<open>n\<close> consecutive pages from page \<open>p\<close> on, each of size 200.
\<close>

definition pageActs :: "remote_activity list option \<Rightarrow> remote_activity list" where
  "pageActs response = (case response of None \<Rightarrow> [] | Some acts \<Rightarrow> acts)"

definition pageRequests :: "int \<Rightarrow> nat \<Rightarrow> nat \<Rightarrow> page_request list" where
  "pageRequests after p n = map (\<lambda>j. (after, 200, p + j)) [0..<n]"

subsection \<open>Example providers\<close>

text \<open>
  A ride with remote id \<open>i\<close>, and three providers: one ride on one page; a full first
  page and a server error on the second; pages of sizes 200, 200 and 120.
\<close>

definition ride :: "int \<Rightarrow> remote_activity" where
  "ride i = \<lparr> ra_id = i, ra_gear_id = None, ra_start_date = ''2025-01-02T08:00:00Z'',
              ra_distance = Some 25000, ra_moving_time = Some 3600, ra_elapsed_time = Some 4000,
              ra_total_elevation_gain = Some 300, ra_average_speed = Some 7,
              ra_type = Some ''Ride'' \<rparr>"

definition oneRideClient :: activities_client where
  "oneRideClient after pp page = (if page = 1 then Inr (Some [ride 1]) else Inr (Some []))"

definition failingSecondPage :: activities_client where
  "failingSecondPage after pp page =
     (if page = 1 then Inr (Some (map (\<lambda>i. ride (int i)) [1..<201]))
      else Inl (ApiError 500 ''Internal Server Error''))"

definition threePages :: activities_client where
  "threePages after pp page =
     (if page = 1 then Inr (Some (map (\<lambda>i. ride (int i)) [1..<201]))
      else if page = 2 then Inr (Some (map (\<lambda>i. ride (int i)) [201..<401]))
      else if page = 3 then Inr (Some (map (\<lambda>i. ride (int i)) [401..<521]))
      else Inr (Some []))"

section \<open>Tokens and the client (src/services/strava.js)\<close>

text \<open>
  A modifier that is a synchronous function and does not throw always returns; for such a
  modifier \<open>modifyData\<close> is the total function \<open>modifyData_returns\<close> (lemma
  \<open>modifyData_returns\<close> below).
\<close>

definition modifyData_returns :: "(data \<Rightarrow> data \<times> 'w) \<Rightarrow> disk \<Rightarrow> data \<times> 'w \<times> disk" where
  "modifyData_returns modifier f =
     (case loadData f of
        (d, f1) \<Rightarrow> (case modifier d of (d', w) \<Rightarrow> (d', w, saveData d')))"

text \<open>
  The token endpoint answers a POST with the JSON of a 2xx response or with another status
  and a body; \<open>fetchJson\<close> turns the latter into an error. The client records every request
  it sends to the endpoint.
\<close>

datatype token_request =
    AuthorizationCode string string string
  | RefreshToken string string string

record token_response =
  access_token :: string
  refresh_token :: string
  expires_in :: int

type_synonym token_endpoint = "token_request \<Rightarrow> (nat \<times> string) + token_response"

definition SCOPES :: string where
  "SCOPES = ''activity:read_all,read''"

text \<open>
  The object that \<open>exchangeCodeForToken\<close> and \<open>refreshAccessToken\<close> return; the latter has
  no property \<^verbatim>\<open>scopes\<close>.
\<close>

record tokens =
  tk_accessToken :: string
  tk_refreshToken :: string
  tk_expiresAt :: int
  tk_scopes :: "string option"

definition exchangeCodeForToken ::
  "token_endpoint \<Rightarrow> timestamp \<Rightarrow> string \<Rightarrow> string \<Rightarrow> string \<Rightarrow> error + tokens" where
  "exchangeCodeForToken endpoint now clientId clientSecret code =
     (case endpoint (AuthorizationCode clientId clientSecret code) of
        Inl (status, body) \<Rightarrow> Inl (StravaApiError status body)
      | Inr response \<Rightarrow>
          Inr \<lparr> tk_accessToken = access_token response,
                tk_refreshToken = refresh_token response,
                tk_expiresAt = now div 1000 + expires_in response,
                tk_scopes = Some SCOPES \<rparr>)"

definition refreshAccessToken ::
  "token_endpoint \<Rightarrow> timestamp \<Rightarrow> string \<Rightarrow> string \<Rightarrow> string \<Rightarrow> error + tokens" where
  "refreshAccessToken endpoint now clientId clientSecret refreshToken =
     (case endpoint (RefreshToken clientId clientSecret refreshToken) of
        Inl (status, body) \<Rightarrow> Inl (StravaApiError status body)
      | Inr response \<Rightarrow>
          Inr \<lparr> tk_accessToken = access_token response,
                tk_refreshToken = refresh_token response,
                tk_expiresAt = now div 1000 + expires_in response,
                tk_scopes = None \<rparr>)"

text \<open>The fields of a \<open>StravaClient\<close>; the constructor sets the last three to \<^verbatim>\<open>null\<close>.\<close>

record client =
  cl_clientId :: string
  cl_clientSecret :: string
  cl_redirectUri :: string
  cl_accessToken :: "string option"
  cl_expiresAt :: "int option"
  cl_athleteId :: "int option"

definition newStravaClient :: "string \<Rightarrow> string \<Rightarrow> string \<Rightarrow> client" where
  "newStravaClient clientId clientSecret redirectUri =
     \<lparr> cl_clientId = clientId, cl_clientSecret = clientSecret, cl_redirectUri = redirectUri,
       cl_accessToken = None, cl_expiresAt = None, cl_athleteId = None \<rparr>"

text \<open>
  \<open>isTokenExpired(token)\<close> reads the property \<^verbatim>\<open>expires_at\<close> of its argument. The code
  passes it objects of two shapes: a token record of the store, whose properties are
  \<^verbatim>\<open>athleteId\<close>, \<^verbatim>\<open>accessToken\<close>, \<^verbatim>\<open>refreshToken\<close>, \<^verbatim>\<open>expiresAt\<close>, \<^verbatim>\<open>scopes\<close>,
  \<^verbatim>\<open>createdAt\<close> and \<^verbatim>\<open>updatedAt\<close> (lines 51 to 59 of db.js), so that \<^verbatim>\<open>expires_at\<close> is
  \<^verbatim>\<open>undefined\<close>; and the literal \<^verbatim>\<open>{ expires_at: this.expiresAt }\<close>. In JavaScript
  \<^verbatim>\<open>undefined - 300\<close> is \<^verbatim>\<open>NaN\<close> (here \<open>None\<close>), \<^verbatim>\<open>null - 300\<close> is \<open>-300\<close>, and every
  comparison with \<^verbatim>\<open>NaN\<close> is false.
\<close>

datatype jsval = Undefined | Null | Num int

datatype token_object = StoredToken stravaToken | ExpiresAtLiteral "int option"

definition expires_at :: "token_object \<Rightarrow> jsval" where
  "expires_at obj =
     (case obj of
        StoredToken t \<Rightarrow> Undefined
      | ExpiresAtLiteral e \<Rightarrow> (case e of None \<Rightarrow> Null | Some n \<Rightarrow> Num n))"

definition minus :: "jsval \<Rightarrow> int \<Rightarrow> int option" where
  "minus v k =
     (case v of Undefined \<Rightarrow> None | Null \<Rightarrow> Some (0 - k) | Num n \<Rightarrow> Some (n - k))"

definition isTokenExpired :: "timestamp \<Rightarrow> token_object \<Rightarrow> bool" where
  "isTokenExpired now obj =
     (case minus (expires_at obj) 300 of
        None \<Rightarrow> False
      | Some bound \<Rightarrow> now div 1000 \<ge> bound)"

text \<open>
  The branch taken when \<open>isTokenExpired(token)\<close> holds, lines 174 to 192 of \<open>loadFromDb\<close>
  and lines 265 to 283 of \<open>ensureToken\<close>: the refresh request, the upsert under
  \<^verbatim>\<open>this.athleteId\<close> and the assignment of the two fields. The two copies differ in the
  scopes they store: \<^verbatim>\<open>refreshed.scopes\<close> in \<open>loadFromDb\<close>, \<^verbatim>\<open>SCOPES\<close> in
  \<open>ensureToken\<close>. The result is the client or the error, the file, and the requests sent to
  the token endpoint.
\<close>

definition refreshStoredToken ::
  "token_endpoint \<Rightarrow> timestamp \<Rightarrow> (tokens \<Rightarrow> string option) \<Rightarrow> client \<Rightarrow> stravaToken \<Rightarrow> disk
     \<Rightarrow> (error + client) \<times> disk \<times> token_request list" where
  "refreshStoredToken endpoint now scopesOf c token f =
     (case refreshAccessToken endpoint now (cl_clientId c) (cl_clientSecret c)
             (tok_refreshToken token) of
        Inl e \<Rightarrow>
          (Inl e, f, [RefreshToken (cl_clientId c) (cl_clientSecret c) (tok_refreshToken token)])
      | Inr refreshed \<Rightarrow>
          (case modifyData_returns
                  (\<lambda>d. (upsertStravaToken now d (cl_athleteId c) (tk_accessToken refreshed)
                            (tk_refreshToken refreshed) (tk_expiresAt refreshed)
                            (scopesOf refreshed), ()))
                  f of
             (d', u, f') \<Rightarrow>
               (Inr (c\<lparr> cl_accessToken := Some (tk_accessToken refreshed),
                         cl_expiresAt := Some (tk_expiresAt refreshed) \<rparr>),
                f',
                [RefreshToken (cl_clientId c) (cl_clientSecret c) (tok_refreshToken token)])))"

definition loadFromDb ::
  "token_endpoint \<Rightarrow> timestamp \<Rightarrow> client \<Rightarrow> disk \<Rightarrow> (error + client) \<times> disk \<times> token_request list" where
  "loadFromDb endpoint now c f =
     (case loadData f of
        (d, f1) \<Rightarrow>
          (case getStravaToken d (cl_athleteId c) of
             None \<Rightarrow> (Inl NoTokenFound, f1, [])
           | Some token \<Rightarrow>
               if isTokenExpired now (StoredToken token)
               then refreshStoredToken endpoint now tk_scopes c token f1
               else (Inr (c\<lparr> cl_accessToken := Some (tok_accessToken token),
                               cl_expiresAt := Some (tok_expiresAt token) \<rparr>),
                     f1, [])))"

definition ensureToken ::
  "token_endpoint \<Rightarrow> timestamp \<Rightarrow> client \<Rightarrow> disk \<Rightarrow> (error + client) \<times> disk \<times> token_request list" where
  "ensureToken endpoint now c f =
     (if \<not> truthy (cl_accessToken c) \<or> isTokenExpired now (ExpiresAtLiteral (cl_expiresAt c))
      then (case loadData f of
              (d, f1) \<Rightarrow>
                (case getStravaToken d (cl_athleteId c) of
                   None \<Rightarrow> (Inl NoValidToken, f1, [])
                 | Some token \<Rightarrow>
                     if isTokenExpired now (StoredToken token)
                     then refreshStoredToken endpoint now (\<lambda>refreshed. Some SCOPES) c token f1
                     else (Inr (c\<lparr> cl_accessToken := Some (tok_accessToken token),
                                     cl_expiresAt := Some (tok_expiresAt token) \<rparr>),
                           f1, [])))
      else (Inr c, f, []))"

subsection \<open>Example store and token endpoint\<close>

text \<open>
  A store with the token of athlete 7, which expired at second 1000, and a token endpoint
  that answers every request with a new access token and a rotated refresh token.
\<close>

definition staleToken :: stravaToken where
  "staleToken = \<lparr> tok_athleteId = Some 7, tok_accessToken = ''A1'', tok_refreshToken = ''R1'',
                   tok_expiresAt = 1000, tok_scopes = Some ''activity:read_all,read'',
                   tok_createdAt = Some 0, tok_updatedAt = Some 0 \<rparr>"

definition expiredStore :: data where
  "expiredStore = \<lparr> stravaTokens = [staleToken], bikes = [], activities = [] \<rparr>"

definition rotatingEndpoint :: token_endpoint where
  "rotatingEndpoint req =
     Inr \<lparr> access_token = ''A2'', refresh_token = ''R2'', expires_in = 21600 \<rparr>"

definition freshClient :: client where
  "freshClient = newStravaClient ''client-id'' ''client-secret'' ''http://127.0.0.1:8888/callback''"

section \<open>The authorization flow (src/services/strava.js)\<close>

text \<open>
  \<open>createCallbackServer\<close> creates a promise, an HTTP server with a request handler, and a
  timer. What happens to them afterwards is a sequence of events: a request comes in, the
  timer fires (120 seconds have passed), or the server emits \<^verbatim>\<open>error\<close>. A request is
  represented by what the handler reads of it: the path of its URL and the query parameters
  \<^verbatim>\<open>code\<close> and \<^verbatim>\<open>error\<close> (\<open>None\<close> when \<^verbatim>\<open>searchParams.get\<close> returns \<^verbatim>\<open>null\<close>).

  The listener is the state of the three: whether the server accepts requests, whether the
  timer is pending, how the promise is settled (\<open>None\<close> while it is pending) and the
  responses written so far. \<^verbatim>\<open>server.close(callback)\<close> is taken to close at once and to call
  its callback. A promise is settled by the first \<^verbatim>\<open>resolve\<close> or \<^verbatim>\<open>reject\<close> only.
\<close>

record request =
  rq_path :: string
  rq_code :: "string option"
  rq_error :: "string option"

datatype event = Incoming request | TimerFired | ServerError string

record response =
  rs_status :: nat
  rs_contentType :: string
  rs_body :: string

record listener =
  ls_open :: bool
  ls_timerArmed :: bool
  ls_settled :: "(error + string) option"
  ls_responses :: "response list"

definition initialListener :: listener where
  "initialListener =
     \<lparr> ls_open = True, ls_timerArmed = True, ls_settled = None, ls_responses = [] \<rparr>"

definition respond :: "nat \<Rightarrow> string \<Rightarrow> string \<Rightarrow> listener \<Rightarrow> listener" where
  "respond status contentType body ls =
     ls\<lparr> ls_responses := ls_responses ls
            @ [\<lparr> rs_status = status, rs_contentType = contentType, rs_body = body \<rparr>] \<rparr>"

definition settle :: "error + string \<Rightarrow> listener \<Rightarrow> listener" where
  "settle outcome ls =
     (case ls_settled ls of
        None \<Rightarrow> ls\<lparr> ls_settled := Some outcome \<rparr>
      | Some r \<Rightarrow> ls)"

text \<open>\<^verbatim>\<open>finish\<close>: \<^verbatim>\<open>clearTimeout(timeout); server.close(() => callback())\<close>.\<close>

definition finish :: "error + string \<Rightarrow> listener \<Rightarrow> listener" where
  "finish outcome ls = settle outcome (ls\<lparr> ls_timerArmed := False, ls_open := False \<rparr>)"

text \<open>The confirmation page, without the indentation of the template literal.\<close>

definition confirmationPage :: string where
  "confirmationPage =
     ''<html><head><title>Strava Auth Complete</title></head><body>''
     @ ''<h1>Authorization successful!</h1>''
     @ ''<p>You can close this window and return to the terminal.</p></body></html>''"

definition handleRequest :: "request \<Rightarrow> listener \<Rightarrow> listener" where
  "handleRequest rq ls =
     (if rq_path rq \<noteq> ''/callback''
      then respond 404 ''text/plain'' ''Not found'' ls
      else (case orNull (rq_error rq) of
              Some e \<Rightarrow>
                finish (Inl (OAuthError e))
                  (respond 400 ''text/plain'' (''OAuth error: '' @ e) ls)
            | None \<Rightarrow>
                (case orNull (rq_code rq) of
                   Some code \<Rightarrow>
                     finish (Inr code) (respond 200 ''text/html'' confirmationPage ls)
                 | None \<Rightarrow>
                     finish (Inl MissingAuthorizationCode)
                       (respond 400 ''text/plain'' ''Missing authorization code'' ls))))"

definition step :: "listener \<Rightarrow> event \<Rightarrow> listener" where
  "step ls ev =
     (case ev of
        Incoming rq \<Rightarrow> if ls_open ls then handleRequest rq ls else ls
      | TimerFired \<Rightarrow>
          if ls_timerArmed ls
          then settle (Inl AuthorizationTimeout) (ls\<lparr> ls_timerArmed := False, ls_open := False \<rparr>)
          else ls
      | ServerError msg \<Rightarrow> settle (Inl (ListenError msg)) (ls\<lparr> ls_timerArmed := False \<rparr>))"

definition createCallbackServer :: "event list \<Rightarrow> listener" where
  "createCallbackServer events = foldl step initialListener events"

text \<open>A listener is waiting while it accepts requests and nothing has settled the promise.\<close>

definition waiting :: "listener \<Rightarrow> bool" where
  "waiting ls = (ls_open ls \<and> ls_timerArmed ls \<and> ls_settled ls = None)"

text \<open>
  \<open>apiRequest\<close>: \<open>ensureToken\<close>, then the request with the bearer token. The remote API is
  a function from the bearer token to the JSON of a 2xx response or another status with its
  body. A 401 discards the access token of the client. The warning about the rate limit
  only writes to the standard error stream and is left out.
\<close>

datatype 'a api_response = ApiOk 'a | ApiStatus nat string

definition apiRequest ::
  "token_endpoint \<Rightarrow> (string option \<Rightarrow> 'a api_response) \<Rightarrow> timestamp \<Rightarrow> client \<Rightarrow> disk
     \<Rightarrow> (error + 'a) \<times> client \<times> disk \<times> token_request list" where
  "apiRequest endpoint api now c f =
     (case ensureToken endpoint now c f of
        (Inl e, f1, reqs) \<Rightarrow> (Inl e, c, f1, reqs)
      | (Inr c1, f1, reqs) \<Rightarrow>
          (case api (cl_accessToken c1) of
             ApiOk json \<Rightarrow> (Inr json, c1, f1, reqs)
           | ApiStatus status body \<Rightarrow>
               if status = 401
               then (Inl SessionExpired, c1\<lparr> cl_accessToken := None \<rparr>, f1, reqs)
               else (Inl (ApiError status body), c1, f1, reqs)))"

record athlete =
  ath_id :: int
  ath_firstname :: string
  ath_lastname :: string
  ath_city :: string
  ath_state :: string
  ath_country :: string

definition getAthlete ::
  "token_endpoint \<Rightarrow> (string option \<Rightarrow> athlete api_response) \<Rightarrow> timestamp \<Rightarrow> client \<Rightarrow> disk
     \<Rightarrow> (error + athlete) \<times> client \<times> disk \<times> token_request list" where
  "getAthlete endpoint api now c f = apiRequest endpoint api now c f"

record authorization =
  au_athleteId :: "int option"
  au_name :: string
  au_city :: string
  au_state :: string
  au_country :: string
  au_scopes :: "string option"

text \<open>
  \<open>authorize\<close>, from the point where the port is found and the URL printed. It awaits the
  promise of \<open>createCallbackServer\<close>: when the promise never settles, \<open>authorize\<close> does not
  return (\<open>None\<close>). Every error of the \<^verbatim>\<open>try\<close> block is thrown again as
  \<^verbatim>\<open>Authorization failed: ...\<close>. The result comes with the client, the listener, the file and
  the requests sent to the token endpoint.
\<close>

definition authorize ::
  "token_endpoint \<Rightarrow> (string option \<Rightarrow> athlete api_response) \<Rightarrow> timestamp \<Rightarrow> event list
     \<Rightarrow> client \<Rightarrow> disk
     \<Rightarrow> ((error + authorization) \<times> client \<times> listener \<times> disk \<times> token_request list) option" where
  "authorize endpoint api now events c f =
     (case ls_settled (createCallbackServer events) of
        None \<Rightarrow> None
      | Some outcome \<Rightarrow>
          (case outcome of
             Inl e \<Rightarrow> Some (Inl (AuthorizationFailed e), c, createCallbackServer events, f, [])
           | Inr code \<Rightarrow>
               (case exchangeCodeForToken endpoint now (cl_clientId c) (cl_clientSecret c) code of
                  Inl e \<Rightarrow>
                    Some (Inl (AuthorizationFailed e), c, createCallbackServer events, f,
                          [AuthorizationCode (cl_clientId c) (cl_clientSecret c) code])
                | Inr tokens \<Rightarrow>
                    (case getAthlete endpoint api now
                            (c\<lparr> cl_accessToken := Some (tk_accessToken tokens),
                                cl_expiresAt := Some (tk_expiresAt tokens) \<rparr>) f of
                       (r, c2, f2, reqs) \<Rightarrow>
                         (case r of
                            Inl e \<Rightarrow>
                              Some (Inl (AuthorizationFailed e), c2, createCallbackServer events, f2,
                                    AuthorizationCode (cl_clientId c) (cl_clientSecret c) code # reqs)
                          | Inr athlete \<Rightarrow>
                              (case modifyData_returns
                                      (\<lambda>d. (upsertStravaToken now d (Some (ath_id athlete))
                                                (tk_accessToken tokens) (tk_refreshToken tokens)
                                                (tk_expiresAt tokens) (tk_scopes tokens), ()))
                                      f2 of
                                 (d', u, f3) \<Rightarrow>
                                   Some (Inr \<lparr> au_athleteId = Some (ath_id athlete),
                                               au_name = ath_firstname athlete @ '' ''
                                                         @ ath_lastname athlete,
                                               au_city = ath_city athlete,
                                               au_state = ath_state athlete,
                                               au_country = ath_country athlete,
                                               au_scopes = tk_scopes tokens \<rparr>,
                                         c2\<lparr> cl_athleteId := Some (ath_id athlete) \<rparr>,
                                         createCallbackServer events, f3,
                                         AuthorizationCode (cl_clientId c) (cl_clientSecret c) code
                                           # reqs)))))))"

section \<open>Gear synchronisation (src/services/sync.js)\<close>

text \<open>
  A gear entry of the athlete's profile, as far as \<open>syncBikes\<close> reads it.
  \<^verbatim>\<open>crypto.randomUUID()\<close> is a supply \<open>gen\<close> of identifiers together with the number of
  identifiers drawn so far.
\<close>

record gear =
  g_resource_state :: int
  g_gear_id :: "string option"
  g_name :: "string option"
  g_nickname :: "string option"
  g_description :: "string option"
  g_brand_model :: "string option"

definition isBikeGear :: "gear \<Rightarrow> bool" where
  "isBikeGear g = (g_resource_state g = 3 \<and> truthy (g_gear_id g))"

definition isShoeGear :: "gear \<Rightarrow> bool" where
  "isShoeGear g = (g_resource_state g = 3 \<and> \<not> truthy (g_gear_id g))"

text \<open>\<^verbatim>\<open>bike.name || bike.nickname || "Unnamed Bike"\<close>.\<close>

definition bikeName :: "gear \<Rightarrow> string" where
  "bikeName g =
     (case orNull (g_name g) of
        Some n \<Rightarrow> n
      | None \<Rightarrow> (case orNull (g_nickname g) of Some n \<Rightarrow> n | None \<Rightarrow> ''Unnamed Bike''))"

text \<open>
  The body of \<^verbatim>\<open>for (const bike of bikes)\<close>, lines 22 to 32.
  \<^verbatim>\<open>existing?.id || generateId()\<close> draws an identifier when there is no existing bike, and
  also when its id is falsy (the empty string).
\<close>

definition syncBike :: "(nat \<Rightarrow> string) \<Rightarrow> timestamp \<Rightarrow> data \<times> nat \<Rightarrow> gear \<Rightarrow> data \<times> nat" where
  "syncBike gen now s g =
     (case s of (d, n) \<Rightarrow>
        let existing = find (\<lambda>b. bike_stravaGearId b = g_gear_id g) (bikes d);
            existingId = (case existing of
                            Some b \<Rightarrow> if bike_id b \<noteq> [] then Some (bike_id b) else None
                          | None \<Rightarrow> None);
            bikeId = (case existingId of Some i \<Rightarrow> i | None \<Rightarrow> gen n);
            n' = (case existingId of Some i \<Rightarrow> n | None \<Rightarrow> Suc n)
        in (upsertBike now d
              \<lparr> bike_id = bikeId,
                bike_name = bikeName g,
                bike_type = orNull (g_description g),
                bike_stravaGearId = g_gear_id g,
                bike_isDefault = (case existing of Some b \<Rightarrow> bike_isDefault b | None \<Rightarrow> False),
                bike_notes = orNull (g_brand_model g),
                bike_createdAt = None,
                bike_updatedAt = None \<rparr>,
            n'))"

text \<open>
  \<open>syncBikes\<close>. \<open>getGears\<close> of the client returns the gear list or throws. The result
  is the two counts, or the error; with it the number of identifiers drawn and the file.
\<close>

definition syncBikes ::
  "(nat \<Rightarrow> string) \<Rightarrow> nat \<Rightarrow> timestamp \<Rightarrow> error + gear list \<Rightarrow> disk
     \<Rightarrow> (error + nat \<times> nat) \<times> nat \<times> disk" where
  "syncBikes gen n now getGears f =
     (case getGears of
        Inl e \<Rightarrow> (Inl e, n, f)
      | Inr gears \<Rightarrow>
          (case modifyData_returns
                  (\<lambda>d. foldl (syncBike gen now) (d, n) (filter isBikeGear gears)) f of
             (d', n', f') \<Rightarrow>
               (Inr (length (filter isBikeGear gears), length (filter isShoeGear gears)), n', f')))"

text \<open>The local id under which a remote gear identifier is found in the store.\<close>

definition localId :: "data \<Rightarrow> string option \<Rightarrow> string option" where
  "localId d gearId = map_option bike_id (getBikeByStravaGearId d gearId)"

text \<open>
  What is assumed of the identifiers, as \<^verbatim>\<open>crypto.randomUUID()\<close> provides them: the bikes of
  the store have distinct, non-empty ids, and no identifier still to be drawn is the id of a
  bike of the store. (That the identifiers drawn differ from each other and are non-empty is
  assumed of \<open>gen\<close> where needed.)
\<close>

definition idsWellFormed :: "(nat \<Rightarrow> string) \<Rightarrow> nat \<Rightarrow> data \<Rightarrow> bool" where
  "idsWellFormed gen n d =
     (distinct (map bike_id (bikes d))
      \<and> [] \<notin> set (map bike_id (bikes d))
      \<and> (\<forall>k \<ge> n. gen k \<notin> set (map bike_id (bikes d))))"

subsection \<open>Example gear\<close>

text \<open>
  A supply of identifiers; a store with one bike, attached to the remote gear \<^verbatim>\<open>b1\<close>; and a
  gear list with that bike, a bike \<^verbatim>\<open>b2\<close> that is not fully resolved
  (\<^verbatim>\<open>resource_state\<close> 2), a new bike \<^verbatim>\<open>b3\<close> and a pair of shoes.
\<close>

definition uuids :: "nat \<Rightarrow> string" where
  "uuids k = ''uuid-'' @ replicate (Suc k) CHR ''x''"

definition garage :: data where
  "garage = \<lparr> stravaTokens = [],
               bikes = [\<lparr> bike_id = ''local-1'', bike_name = ''Road'', bike_type = None,
                          bike_stravaGearId = Some ''b1'', bike_isDefault = True,
                          bike_notes = None, bike_createdAt = Some 0, bike_updatedAt = Some 0 \<rparr>],
               activities = [] \<rparr>"

definition gearOf :: "int \<Rightarrow> string option \<Rightarrow> string \<Rightarrow> gear" where
  "gearOf state gearId name =
     \<lparr> g_resource_state = state, g_gear_id = gearId, g_name = Some name, g_nickname = None,
       g_description = None, g_brand_model = None \<rparr>"

definition exampleGears :: "gear list" where
  "exampleGears =
     [gearOf 3 (Some ''b1'') ''Road bike'', gearOf 2 (Some ''b2'') ''Gravel bike'',
      gearOf 3 (Some ''b3'') ''Commuter'', gearOf 3 None ''Shoes'']"

section \<open>Lists: \<open>findIndex\<close> and \<open>find\<close>\<close>



lemma findIndex_None: "findIndex p xs = None \<longleftrightarrow> (\<forall>x \<in> set xs. \<not> p x)"
  by (induction xs) auto

lemma findIndex_Some:
  "findIndex p xs = Some i \<Longrightarrow> i < length xs \<and> p (xs ! i) \<and> (\<forall>j < i. \<not> p (xs ! j))"
proof (induction xs arbitrary: i)
  case Nil
  then show ?case by simp
next
  case (Cons x xs)
  show ?case
  proof (cases "p x")
    case True
    with Cons.prems show ?thesis by simp
  next
    case False
    with Cons.prems obtain k where k: "findIndex p xs = Some k" "i = Suc k"
      by auto
    from Cons.IH [OF k(1)] False k(2) show ?thesis
      by (auto simp: less_Suc_eq_0_disj)
  qed
qed

lemma find_update_first:
  "findIndex p xs = Some i \<Longrightarrow> p v \<Longrightarrow> find p (xs[i := v]) = Some v"
proof (induction xs arbitrary: i)
  case Nil
  then show ?case by simp
next
  case (Cons x xs)
  then show ?case by (cases "p x") auto
qed

lemma find_append_new:
  "findIndex p xs = None \<Longrightarrow> p v \<Longrightarrow> find p (xs @ [v]) = Some v"
  by (induction xs) (auto split: if_splits)

text \<open>
  C10. Whatever the store holds, after \<open>upsertStravaToken\<close> the record found for the
  athlete carries the time of this very call both as \<open>createdAt\<close> and as \<open>updatedAt\<close>:
  also when a record of that athlete was there before, whose \<open>createdAt\<close> is thereby lost.
\<close>

theorem upsertStravaToken_resets_createdAt:
  "find (\<lambda>t. tok_athleteId t = a) (stravaTokens (upsertStravaToken now d a acc rfr ex sc))
     = Some \<lparr> tok_athleteId = a, tok_accessToken = acc, tok_refreshToken = rfr,
              tok_expiresAt = ex, tok_scopes = sc,
              tok_createdAt = Some now, tok_updatedAt = Some now \<rparr>"
proof (cases "findIndex (\<lambda>t. tok_athleteId t = a) (stravaTokens d)")
  case None
  then show ?thesis
    by (simp add: upsertStravaToken_def Let_def find_append_new)
next
  case (Some i)
  then show ?thesis
    by (simp add: upsertStravaToken_def Let_def find_update_first)
qed

section \<open>Activity synchronisation: the loop\<close>

lemma activityData_bikes: "bikes d' = bikes d \<Longrightarrow> activityData a d' r = activityData a d r"
  by (simp add: activityData_def)

lemma act_id_activityData [simp]: "act_id (activityData a d r) = ra_id r"
  by (simp add: activityData_def)

lemma mergeActivity_fold:
  "foldl (mergeActivity a) (d, ad, up) acts = (d', ad', up') \<Longrightarrow>
     bikes d' = bikes d \<and> stravaTokens d' = stravaTokens d \<and>
     activities d' = activities d @ map (activityData a d) acts \<and>
     ad' + up' = ad + up + length acts"
proof (induction acts arbitrary: d ad up)
  case Nil
  then show ?case by simp
next
  case (Cons r acts)
  obtain d1 ad1 up1 where s1: "mergeActivity a (d, ad, up) r = (d1, ad1, up1)"
    by (cases "mergeActivity a (d, ad, up) r") auto
  then have d1: "bikes d1 = bikes d" "stravaTokens d1 = stravaTokens d"
    "activities d1 = activities d @ [activityData a d r]" "ad1 + up1 = ad + up + 1"
    by (auto simp: mergeActivity_def Let_def)
  from Cons.prems s1 have "foldl (mergeActivity a) (d1, ad1, up1) acts = (d', ad', up')"
    by simp
  from Cons.IH [OF this] d1 show ?case
    by (simp add: activityData_bikes [of d1 d] cong: map_cong)
qed

lemma pageRequests_Suc:
  "(after, perPage, p) # pageRequests after (Suc p) n = pageRequests after p (Suc n)"
  unfolding pageRequests_def perPage_def by (simp add: map_upt_Suc del: upt_Suc)

lemma pageRequests_snoc:
  "pageRequests after p n @ [(after, perPage, p + n)] = pageRequests after p (Suc n)"
  unfolding pageRequests_def perPage_def by simp

lemma fetchPages_throw:
  "client after perPage p = Inl e \<Longrightarrow>
   fetchPages client after a d ad up p reqs =
     Some (Some e, d, ad, up, p, reqs @ [(after, perPage, p)])"
  by (subst fetchPages.simps) simp

lemma fetchPages_short:
  assumes "client after perPage p = Inr response" "length (pageActs response) < perPage"
  shows "fetchPages client after a d ad up p reqs =
     (case foldl (mergeActivity a) (d, ad, up) (pageActs response) of
        (d', ad', up') \<Rightarrow> Some (None, d', ad', up', p, reqs @ [(after, perPage, p)]))"
  using assms by (subst fetchPages.simps) (auto simp: pageActs_def split: option.splits prod.splits)

lemma fetchPages_full:
  assumes "client after perPage p = Inr (Some acts)" "perPage \<le> length acts"
  shows "fetchPages client after a d ad up p reqs =
     (case foldl (mergeActivity a) (d, ad, up) acts of
        (d', ad', up') \<Rightarrow>
          fetchPages client after a d' ad' up' (Suc p) (reqs @ [(after, perPage, p)]))"
proof -
  from assms(2) have "acts \<noteq> []" by (auto simp: perPage_def)
  with assms show ?thesis
    by (subst fetchPages.simps) (simp split: prod.splits)
qed

lemma fetchPages_full_pages:
  assumes "\<forall>j < length pages. client after perPage (p + j) = Inr (Some (pages ! j))
              \<and> perPage \<le> length (pages ! j)"
  shows "fetchPages client after a d ad up p reqs =
     (case foldl (mergeActivity a) (d, ad, up) (concat pages) of
        (d', ad', up') \<Rightarrow>
          fetchPages client after a d' ad' up' (p + length pages)
            (reqs @ pageRequests after p (length pages)))"
  using assms
proof (induction pages arbitrary: d ad up p reqs)
  case Nil
  then show ?case by (simp add: pageRequests_def)
next
  case (Cons pg pages)
  from Cons.prems have pg: "client after perPage p = Inr (Some pg)" "perPage \<le> length pg"
    by auto
  from Cons.prems have rest: "\<forall>j < length pages. client after perPage (Suc p + j) = Inr (Some (pages ! j))
              \<and> perPage \<le> length (pages ! j)"
    by fastforce
  obtain d1 ad1 up1 where s1: "foldl (mergeActivity a) (d, ad, up) pg = (d1, ad1, up1)"
    by (cases "foldl (mergeActivity a) (d, ad, up) pg") auto
  have "fetchPages client after a d ad up p reqs =
          fetchPages client after a d1 ad1 up1 (Suc p) (reqs @ [(after, perPage, p)])"
    using fetchPages_full [of client after p pg a d ad up reqs] pg by (simp add: s1)
  also have "\<dots> = (case foldl (mergeActivity a) (d1, ad1, up1) (concat pages) of
        (d', ad', up') \<Rightarrow>
          fetchPages client after a d' ad' up' (Suc p + length pages)
            ((reqs @ [(after, perPage, p)]) @ pageRequests after (Suc p) (length pages)))"
    using Cons.IH [of "Suc p" d1 ad1 up1 "reqs @ [(after, perPage, p)]"] rest by simp
  finally show ?case
    by (simp add: s1 pageRequests_Suc)
qed


lemma syncActivities_unfold:
  "syncActivities client a now since full f =
     (case fetchPages client (sinceTimestamp now since full) a (fst (loadData f)) 0 0 1 [] of
        None \<Rightarrow> None
      | Some (thrown, d', added, updated, page, reqs) \<Rightarrow>
          (case thrown of
             Some e \<Rightarrow> Some (Inl e, reqs, snd (loadData f))
           | None \<Rightarrow> Some (Inr (added, updated), reqs, Some d')))"
  by (auto simp: syncActivities_def modifyData_def saveData_def split: prod.splits option.splits sum.splits)

lemma fetchPages_run_short:
  assumes full: "\<forall>j < length pages.
            client after perPage (Suc j) = Inr (Some (pages ! j)) \<and> perPage \<le> length (pages ! j)"
    and last: "client after perPage (Suc (length pages)) = Inr response"
    and short: "length (pageActs response) < perPage"
    and all: "foldl (mergeActivity a) (d0, 0, 0) (concat pages @ pageActs response) = (d2, ad2, up2)"
  shows "fetchPages client after a d0 0 0 1 [] =
           Some (None, d2, ad2, up2, Suc (length pages), pageRequests after 1 (Suc (length pages)))"
proof -
  obtain d1 ad1 up1 where s1: "foldl (mergeActivity a) (d0, 0, 0) (concat pages) = (d1, ad1, up1)"
    by (cases "foldl (mergeActivity a) (d0, 0, 0) (concat pages)") auto
  with all have s2: "foldl (mergeActivity a) (d1, ad1, up1) (pageActs response) = (d2, ad2, up2)"
    by simp
  from full have full': "\<forall>j < length pages. client after perPage (1 + j) = Inr (Some (pages ! j))
            \<and> perPage \<le> length (pages ! j)"
    by simp
  have "fetchPages client after a d0 0 0 1 [] =
          fetchPages client after a d1 ad1 up1 (1 + length pages)
            ([] @ pageRequests after 1 (length pages))"
    using fetchPages_full_pages [of pages client after 1 a d0 0 0 "[]"] full' by (simp add: s1)
  also have "\<dots> = Some (None, d2, ad2, up2, 1 + length pages,
                     pageRequests after 1 (length pages) @ [(after, perPage, 1 + length pages)])"
    using fetchPages_short [of client after "1 + length pages" response a d1 ad1 up1] last short
    by (simp add: s2)
  finally show ?thesis
    by (simp only: pageRequests_snoc) simp
qed

lemma fetchPages_run_failed:
  assumes full: "\<forall>j < length pages.
            client after perPage (Suc j) = Inr (Some (pages ! j)) \<and> perPage \<le> length (pages ! j)"
    and fails: "client after perPage (Suc (length pages)) = Inl e"
  shows "\<exists>d1 ad1 up1. fetchPages client after a d0 0 0 1 [] =
           Some (Some e, d1, ad1, up1, Suc (length pages), pageRequests after 1 (Suc (length pages)))"
proof -
  obtain d1 ad1 up1 where s1: "foldl (mergeActivity a) (d0, 0, 0) (concat pages) = (d1, ad1, up1)"
    by (cases "foldl (mergeActivity a) (d0, 0, 0) (concat pages)") auto
  from full have full': "\<forall>j < length pages. client after perPage (1 + j) = Inr (Some (pages ! j))
            \<and> perPage \<le> length (pages ! j)"
    by simp
  have "fetchPages client after a d0 0 0 1 [] =
          fetchPages client after a d1 ad1 up1 (1 + length pages)
            ([] @ pageRequests after 1 (length pages))"
    using fetchPages_full_pages [of pages client after 1 a d0 0 0 "[]"] full' by (simp add: s1)
  also have "\<dots> = Some (Some e, d1, ad1, up1, 1 + length pages,
                     pageRequests after 1 (length pages) @ [(after, perPage, 1 + length pages)])"
    using fetchPages_throw [of client after "1 + length pages" e a d1 ad1 up1] fails
    by simp
  finally have "fetchPages client after a d0 0 0 1 [] =
      Some (Some e, d1, ad1, up1, Suc (length pages), pageRequests after 1 (Suc (length pages)))"
    by (simp only: pageRequests_snoc) simp
  then show ?thesis by blast
qed

lemma syncActivities_thrown:
  assumes "fetchPages client (sinceTimestamp now since full) a (fst (loadData f)) 0 0 1 [] =
             Some (Some e, d1, ad1, up1, p, reqs)"
  shows "syncActivities client a now since full f =
           Some (Inl e, reqs, (case f of Some d \<Rightarrow> Some d | None \<Rightarrow> Some initialData))"
proof -
  have "snd (loadData f) = (case f of Some d \<Rightarrow> Some d | None \<Rightarrow> Some initialData)"
    by (simp add: loadData_def split: option.splits)
  with assms show ?thesis
    by (simp add: syncActivities_unfold)
qed

subsection \<open>Pagination\<close>

text \<open>
  C5. Let the provider answer the pages 1, 2, ... with \<open>pages\<close>, each of at least 200
  activities, and the next page with fewer than 200 activities (or none, or \<^verbatim>\<open>null\<close>).
  Then \<open>syncActivities\<close> returns; the requests it has sent are exactly those for the pages
  1 to \<open>length pages + 1\<close>, in this order and each of size 200; and the saved store holds,
  after the activities it had, one record for every activity of every page, in page order.
  For pages of sizes 200, 200 and 120 these are three requests and 520 records (the witness).
\<close>

theorem syncActivities_pagination:
  assumes full: "\<forall>j < length pages.
            client (sinceTimestamp now since full) perPage (Suc j) = Inr (Some (pages ! j))
            \<and> perPage \<le> length (pages ! j)"
    and last: "client (sinceTimestamp now since full) perPage (Suc (length pages)) = Inr response"
    and short: "length (pageActs response) < perPage"
  shows "\<exists>d' added updated.
           syncActivities client a now since full f =
             Some (Inr (added, updated),
                   pageRequests (sinceTimestamp now since full) 1 (Suc (length pages)),
                   Some d')
         \<and> activities d' = activities (fst (loadData f))
              @ map (activityData a (fst (loadData f))) (concat pages @ pageActs response)
         \<and> added + updated = length (concat pages @ pageActs response)"
proof -
  define d0 where "d0 = fst (loadData f)"
  obtain d2 ad2 up2
    where all: "foldl (mergeActivity a) (d0, 0, 0) (concat pages @ pageActs response) = (d2, ad2, up2)"
    by (cases "foldl (mergeActivity a) (d0, 0, 0) (concat pages @ pageActs response)") auto
  note run = fetchPages_run_short [where client = client and after = "sinceTimestamp now since full",
      OF full last short all]
  from mergeActivity_fold [OF all]
  have "activities d2 = activities d0 @ map (activityData a d0) (concat pages @ pageActs response)"
    and "ad2 + up2 = length (concat pages @ pageActs response)"
    by simp_all
  with run show ?thesis
    unfolding syncActivities_unfold d0_def [symmetric] by simp
qed

theorem syncActivities_pagination_witness:
  "\<exists>d' added updated.
     syncActivities threePages (Some 7) 5000 (Some 0) False (Some initialData) =
       Some (Inr (added, updated), [(0, 200, 1), (0, 200, 2), (0, 200, 3)], Some d')
     \<and> map act_id (activities d') = map int ([1..<201] @ [201..<401] @ [401..<521])
     \<and> added + updated = 520"
proof -
  define p1 where "p1 = map (\<lambda>i. ride (int i)) [1..<201]"
  define p2 where "p2 = map (\<lambda>i. ride (int i)) [201..<401]"
  define p3 where "p3 = map (\<lambda>i. ride (int i)) [401..<521]"
  have len: "length p1 = 200" "length p2 = 200" "length p3 = 120"
    by (simp_all add: p1_def p2_def p3_def)
  have ids: "map ra_id p1 = map int [1..<201]" "map ra_id p2 = map int [201..<401]"
    "map ra_id p3 = map int [401..<521]"
    by (simp_all add: p1_def p2_def p3_def ride_def comp_def del: upt_rec_numeral upt_Suc)
  have full: "\<forall>j < length [p1, p2].
            threePages (sinceTimestamp 5000 (Some 0) False) perPage (Suc j) = Inr (Some ([p1, p2] ! j))
            \<and> perPage \<le> length ([p1, p2] ! j)"
    by (simp add: threePages_def perPage_def less_Suc_eq len)
       (simp add: p1_def p2_def)
  have last: "threePages (sinceTimestamp 5000 (Some 0) False) perPage (Suc (length [p1, p2]))
                = Inr (Some p3)"
    by (simp add: threePages_def p3_def)
  have short: "length (pageActs (Some p3)) < perPage"
    by (simp add: pageActs_def perPage_def len)
  from syncActivities_pagination [where client = threePages and now = 5000 and since = "Some 0"
      and full = False and a = "Some 7" and f = "Some initialData", OF full last short]
  obtain d' added updated where
    run: "syncActivities threePages (Some 7) 5000 (Some 0) False (Some initialData) =
            Some (Inr (added, updated),
                  pageRequests (sinceTimestamp 5000 (Some 0) False) 1 (Suc (length [p1, p2])), Some d')"
    and acts: "activities d' = activities (fst (loadData (Some initialData)))
              @ map (activityData (Some 7) (fst (loadData (Some initialData))))
                  (concat [p1, p2] @ pageActs (Some p3))"
    and count: "added + updated = length (concat [p1, p2] @ pageActs (Some p3))"
    by blast
  have reqs: "pageRequests (sinceTimestamp 5000 (Some 0) False) 1 (Suc (length [p1, p2]))
                = [(0, 200, 1), (0, 200, 2), (0, 200, 3)]"
    by (simp add: pageRequests_def sinceTimestamp_def)
  have "map act_id (activities d') = map ra_id (p1 @ p2 @ p3)"
    unfolding acts by (simp add: loadData_def initialData_def pageActs_def)
  then have "map act_id (activities d') = map int ([1..<201] @ [201..<401] @ [401..<521])"
    by (simp only: map_append ids)
  moreover from count have "added + updated = 520"
    by (simp add: pageActs_def len)
  ultimately show ?thesis
    using run unfolding reqs by blast
qed

text \<open>
  The loop stops at no full page: against a provider that answers every page from \<open>p0\<close> on
  with at least 200 activities it never returns.
\<close>

lemma fetchPages_full_forever:
  assumes full: "\<forall>p \<ge> p0. \<exists>acts. client after perPage p = Inr (Some acts) \<and> perPage \<le> length acts"
    and p: "p0 \<le> p"
  shows "fetchPages client after a d ad up p reqs = None"
proof (rule ccontr)
  assume "fetchPages client after a d ad up p reqs \<noteq> None"
  then obtain y where y: "fetchPages client after a d ad up p reqs = Some y" by auto
  have "client = client \<longrightarrow> after = after \<longrightarrow> p0 \<le> p \<longrightarrow> False"
  proof (rule fetchPages.raw_induct
      [where P = "\<lambda>c af a' d' ad' up' p' reqs' y'. c = client \<longrightarrow> af = after \<longrightarrow> p0 \<le> p' \<longrightarrow> False",
       OF _ y])
    fix f c af a' d' ad' up' p' reqs' y'
    assume ih: "\<And>c af a' d' ad' up' p' reqs' y'. f c af a' d' ad' up' p' reqs' = Some y'
                  \<Longrightarrow> c = client \<longrightarrow> af = after \<longrightarrow> p0 \<le> p' \<longrightarrow> False"
      and body: "(case c af perPage p' of
        Inl e \<Rightarrow> Some (Some e, d', ad', up', p', reqs' @ [(af, perPage, p')])
      | Inr response \<Rightarrow>
          (case response of
             None \<Rightarrow> Some (None, d', ad', up', p', reqs' @ [(af, perPage, p')])
           | Some acts \<Rightarrow>
               if acts = []
               then Some (None, d', ad', up', p', reqs' @ [(af, perPage, p')])
               else (case foldl (mergeActivity a') (d', ad', up') acts of
                       (d'', added', updated') \<Rightarrow>
                         if length acts < perPage
                         then Some (None, d'', added', updated', p',
                                    reqs' @ [(af, perPage, p')])
                         else f c af a'
                                d'' added' updated' (p' + 1)
                                (reqs' @ [(af, perPage, p')])))) = Some y'"
    show "c = client \<longrightarrow> af = after \<longrightarrow> p0 \<le> p' \<longrightarrow> False"
    proof (intro impI)
      assume c: "c = client" and af: "af = after" and p': "p0 \<le> p'"
      from full c af p' obtain acts
        where acts: "c af perPage p' = Inr (Some acts)" "perPage \<le> length acts"
        by auto
      then have ne: "acts \<noteq> []" by (auto simp: perPage_def)
      obtain d1 ad1 up1 where m: "foldl (mergeActivity a') (d', ad', up') acts = (d1, ad1, up1)"
        by (cases "foldl (mergeActivity a') (d', ad', up') acts") auto
      from body acts ne m
      have "f c af a' d1 ad1 up1 (p' + 1) (reqs' @ [(af, perPage, p')]) = Some y'"
        by simp
      from ih [OF this] c af p' show False by simp
    qed
  qed
  with p show False by simp
qed

subsection \<open>A failed page\<close>

text \<open>
  C4, as the code has it. Let the pages 1 to \<open>length pages\<close> be full pages and let the
  request for the next page throw \<open>e\<close>. Then \<open>syncActivities\<close> sends no further request
  and fails with \<open>e\<close>, and the file is left as \<open>loadData\<close> found it (or created it): the
  whole loop runs inside one \<open>modifyData\<close>, whose \<open>saveData\<close> is not reached, so none of
  the records merged from the earlier pages is saved.
\<close>

theorem syncActivities_failed_page:
  assumes full: "\<forall>j < length pages.
            client (sinceTimestamp now since full) perPage (Suc j) = Inr (Some (pages ! j))
            \<and> perPage \<le> length (pages ! j)"
    and fails: "client (sinceTimestamp now since full) perPage (Suc (length pages)) = Inl e"
  shows "syncActivities client a now since full f =
           Some (Inl e,
                 pageRequests (sinceTimestamp now since full) 1 (Suc (length pages)),
                 (case f of Some d \<Rightarrow> Some d | None \<Rightarrow> Some initialData))"
proof -
  from fetchPages_run_failed [where client = client and after = "sinceTimestamp now since full"
      and a = a and ?d0.0 = "fst (loadData f)", OF full fails]
  obtain d1 ad1 up1 where
    "fetchPages client (sinceTimestamp now since full) a (fst (loadData f)) 0 0 1 [] =
       Some (Some e, d1, ad1, up1, Suc (length pages),
             pageRequests (sinceTimestamp now since full) 1 (Suc (length pages)))"
    by blast
  then show ?thesis by (rule syncActivities_thrown)
qed

theorem syncActivities_failed_page_witness:
  "syncActivities failingSecondPage (Some 7) 5000 (Some 0) False None
     = Some (Inl (ApiError 500 ''Internal Server Error''), [(0, 200, 1), (0, 200, 2)],
             Some initialData)"
proof -
  let ?p1 = "map (\<lambda>i. ride (int i)) [1..<201]"
  have full: "\<forall>j < length [?p1].
            failingSecondPage (sinceTimestamp 5000 (Some 0) False) perPage (Suc j) = Inr (Some ([?p1] ! j))
            \<and> perPage \<le> length ([?p1] ! j)"
    by (simp add: failingSecondPage_def perPage_def)
  have fails: "failingSecondPage (sinceTimestamp 5000 (Some 0) False) perPage (Suc (length [?p1]))
                 = Inl (ApiError 500 ''Internal Server Error'')"
    by (simp add: failingSecondPage_def)
  from syncActivities_failed_page [where client = failingSecondPage and now = 5000
      and since = "Some 0" and full = False and a = "Some 7" and f = None, OF full fails]
  show ?thesis
    by (simp add: pageRequests_def sinceTimestamp_def)
qed

text \<open>
  C4 as the specification states it fails: the first page, 200 activities, is merged,
  the second request fails, and the store that was empty before is still empty on disk.
\<close>

theorem syncActivities_failed_page_counterexample:
  "syncActivities failingSecondPage (Some 7) 5000 (Some 0) False (Some initialData)
     = Some (Inl (ApiError 500 ''Internal Server Error''), [(0, 200, 1), (0, 200, 2)],
             Some initialData)
   \<and> activities initialData = []"
proof -
  let ?p1 = "map (\<lambda>i. ride (int i)) [1..<201]"
  have full: "\<forall>j < length [?p1].
            failingSecondPage 0 perPage (Suc j) = Inr (Some ([?p1] ! j))
            \<and> perPage \<le> length ([?p1] ! j)"
    by (simp add: failingSecondPage_def perPage_def)
  have fails: "failingSecondPage 0 perPage (Suc (length [?p1]))
                 = Inl (ApiError 500 ''Internal Server Error'')"
    by (simp add: failingSecondPage_def)
  from fetchPages_run_failed [where client = failingSecondPage and after = 0
      and a = "Some 7" and ?d0.0 = initialData, OF full fails]
  obtain d1 ad1 up1 where
    "fetchPages failingSecondPage 0 (Some 7) initialData 0 0 1 [] =
       Some (Some (ApiError 500 ''Internal Server Error''), d1, ad1, up1, Suc (length [?p1]),
             pageRequests 0 1 (Suc (length [?p1])))"
    by blast
  then have "fetchPages failingSecondPage (sinceTimestamp 5000 (Some 0) False) (Some 7)
               (fst (loadData (Some initialData))) 0 0 1 [] =
       Some (Some (ApiError 500 ''Internal Server Error''), d1, ad1, up1, Suc (length [?p1]),
             pageRequests 0 1 (Suc (length [?p1])))"
    by (simp add: sinceTimestamp_def loadData_def)
  from syncActivities_thrown [OF this] show ?thesis
    by (simp add: pageRequests_def initialData_def)
qed

subsection \<open>Two runs over the same window\<close>

text \<open>
  C1, evaluated. The store is empty and the provider has one ride, with id 1. The first
  run reports one added and none updated, the second none added and one updated, as the
  claim says; but the second run has pushed a second record with id 1. The loop counts by
  the existence check and then always executes \<^verbatim>\<open>data.activities.push(activityData)\<close>;
  \<open>upsertActivity\<close>, which replaces in place, is imported by sync.js and never called.
\<close>

theorem syncActivities_second_run_duplicates:
  "(case syncActivities oneRideClient (Some 7) 5000 (Some 0) False (Some initialData) of
      Some (Inr counts1, reqs1, Some d1) \<Rightarrow>
        (case syncActivities oneRideClient (Some 7) 5000 (Some 0) False (Some d1) of
           Some (Inr counts2, reqs2, Some d2) \<Rightarrow>
             counts1 = (1, 0) \<and> counts2 = (0, 1)
             \<and> map act_id (activities d1) = [1] \<and> map act_id (activities d2) = [1, 1]
         | _ \<Rightarrow> False)
    | _ \<Rightarrow> False)"
  by (simp add: syncActivities_unfold fetchPages_short [where response = "Some [ride 1]"]
        oneRideClient_def pageActs_def perPage_def loadData_def initialData_def
        mergeActivity_def activityData_def truthy_def orNull_def orZero_def ride_def)

text \<open>What \<open>upsertActivity\<close> would have done: a record whose id is present replaces it.\<close>

lemma upsertActivity_existing:
  "findIndex (\<lambda>x. act_id x = act_id a) (activities d) = Some i \<Longrightarrow>
     length (activities (upsertActivity now d a)) = length (activities d)
     \<and> map act_id (activities (upsertActivity now d a)) = map act_id (activities d)"
  by (auto simp: upsertActivity_def Let_def map_update list_update_same_conv
           dest!: findIndex_Some)

section \<open>The token lifecycle\<close>

lemma modifyData_returns:
  "modifyData (\<lambda>d. Some (Inr (fst (g d)), snd (g d))) f =
     (case modifyData_returns g f of (d', w, f') \<Rightarrow> Some (Inr d', w, f'))"
  by (simp add: modifyData_def modifyData_returns_def split: prod.splits)

lemma find_findIndex:
  "find p xs = (case findIndex p xs of None \<Rightarrow> None | Some i \<Rightarrow> Some (xs ! i))"
  by (induction xs) (auto split: option.splits)

subsection \<open>The expiry check\<close>

text \<open>
  On a record of the store the check is never true: the record has a property
  \<^verbatim>\<open>expiresAt\<close> and none called \<^verbatim>\<open>expires_at\<close>. On the literal that \<open>ensureToken\<close>
  builds from the fields of the client it is the intended comparison. So neither
  \<open>loadFromDb\<close> nor \<open>ensureToken\<close> ever sends a refresh request, and a token found in
  the store is taken over as it is, at any time.
\<close>

lemma isTokenExpired_stored: "isTokenExpired now (StoredToken t) = False"
  by (simp add: isTokenExpired_def expires_at_def minus_def)

lemma isTokenExpired_literal:
  "isTokenExpired now (ExpiresAtLiteral (Some e)) \<longleftrightarrow> now div 1000 \<ge> e - 300"
  by (simp add: isTokenExpired_def expires_at_def minus_def)

lemma loadFromDb_sends_no_refresh: "snd (snd (loadFromDb endpoint now c f)) = []"
  by (simp add: loadFromDb_def isTokenExpired_stored split: prod.splits option.splits)

lemma ensureToken_sends_no_refresh: "snd (snd (ensureToken endpoint now c f)) = []"
  by (simp add: ensureToken_def isTokenExpired_stored split: prod.splits option.splits)

lemma loadFromDb_reuses:
  "getStravaToken d (cl_athleteId c) = Some token \<Longrightarrow>
   loadFromDb endpoint now c (Some d) =
     (Inr (c\<lparr> cl_accessToken := Some (tok_accessToken token),
               cl_expiresAt := Some (tok_expiresAt token) \<rparr>), Some d, [])"
  by (simp add: loadFromDb_def loadData_def isTokenExpired_stored)

text \<open>
  C2, evaluated. The store holds the token of athlete 7 with \<open>expiresAt = 1000\<close>; the
  clock shows second 2000, so \<open>now \<ge> expiresAt - 300\<close>. \<open>loadFromDb\<close> on a new client
  sends no request to the token endpoint and takes the expired access token over.
\<close>

theorem loadFromDb_reuses_expired_token:
  "loadFromDb rotatingEndpoint 2000000 freshClient (Some expiredStore)
     = (Inr (freshClient\<lparr> cl_accessToken := Some ''A1'', cl_expiresAt := Some 1000 \<rparr>),
        Some expiredStore, [])
   \<and> (2000000 :: int) div 1000 \<ge> tok_expiresAt staleToken - 300"
  by (simp add: loadFromDb_def loadData_def getStravaToken_def expiredStore_def staleToken_def
        freshClient_def newStravaClient_def isTokenExpired_stored)

text \<open>The same input through \<open>ensureToken\<close>.\<close>

lemma ensureToken_reuses_expired_token:
  "ensureToken rotatingEndpoint 2000000 freshClient (Some expiredStore)
     = (Inr (freshClient\<lparr> cl_accessToken := Some ''A1'', cl_expiresAt := Some 1000 \<rparr>),
        Some expiredStore, [])"
  by (simp add: ensureToken_def loadData_def getStravaToken_def expiredStore_def staleToken_def
        freshClient_def newStravaClient_def isTokenExpired_stored truthy_def)

subsection \<open>The refresh branch\<close>

text \<open>
  Since the expiry check is false on every record of the store, the branch that refreshes is
  never entered: \<open>loadFromDb\<close> and \<open>ensureToken\<close> leave the file as \<open>loadData\<close> found it
  (or created it), whatever the clock shows and whatever the token endpoint would answer.
  No run of them persists a refreshed pair of tokens.
\<close>

lemma loadFromDb_leaves_file: "fst (snd (loadFromDb endpoint now c f)) = snd (loadData f)"
  by (simp add: loadFromDb_def isTokenExpired_stored split: prod.splits option.splits)

lemma ensureToken_leaves_file:
  "fst (snd (ensureToken endpoint now c (Some d))) = Some d"
  by (simp add: ensureToken_def loadData_def isTokenExpired_stored split: option.splits)

text \<open>
  What the branch would do, were it entered. With a new client, as \<open>sync\<close> creates it before
  it calls \<open>loadFromDb\<close>, the \<open>athleteId\<close> is \<^verbatim>\<open>null\<close> and the refreshed pair is upserted
  under the key \<^verbatim>\<open>null\<close>: the record of athlete 7 stays in the store.
\<close>

lemma refreshStoredToken_keeps_stale_token:
  "(case refreshStoredToken rotatingEndpoint 2000000 tk_scopes freshClient staleToken
           (Some expiredStore) of
      (Inr c', Some d', reqs) \<Rightarrow>
        reqs = [RefreshToken ''client-id'' ''client-secret'' ''R1'']
        \<and> map tok_athleteId (stravaTokens d') = [Some 7, None]
        \<and> map tok_refreshToken (stravaTokens d') = [''R1'', ''R2'']
        \<and> map_option tok_refreshToken (getStravaToken d' (Some 7)) = Some ''R1''
        \<and> map_option tok_refreshToken (getStravaToken d' None) = Some ''R2''
    | _ \<Rightarrow> False)"
  by (simp add: refreshStoredToken_def refreshAccessToken_def rotatingEndpoint_def
        modifyData_returns_def loadData_def saveData_def upsertStravaToken_def
        getStravaToken_def tokenTime_def expiredStore_def staleToken_def
        freshClient_def newStravaClient_def)

text \<open>
  With a client that knows its athlete, and a store with one record per athlete, the branch
  would replace the record: the new pair stored, the stale record gone.
\<close>

lemma refreshStoredToken_replaces:
  assumes a: "cl_athleteId c = Some a"
    and tok: "getStravaToken d (Some a) = Some token"
    and dist: "distinct (map tok_athleteId (stravaTokens d))"
    and resp: "endpoint (RefreshToken (cl_clientId c) (cl_clientSecret c) (tok_refreshToken token))
                 = Inr response"
  shows "\<exists>c' d'.
           refreshStoredToken endpoint now sc c token (Some d) =
             (Inr c', Some d',
              [RefreshToken (cl_clientId c) (cl_clientSecret c) (tok_refreshToken token)])
         \<and> (\<exists>new. tok_accessToken new = access_token response
                \<and> tok_refreshToken new = refresh_token response
                \<and> getStravaToken d' (Some a) = Some new
                \<and> set (stravaTokens d') = insert new (set (stravaTokens d) - {token}))"
proof -
  let ?p = "\<lambda>t. tok_athleteId t = Some a"
  from tok have f: "find ?p (stravaTokens d) = Some token"
    by (simp add: getStravaToken_def)
  then obtain i where i: "findIndex ?p (stravaTokens d) = Some i" "stravaTokens d ! i = token"
    by (auto simp: find_findIndex split: option.splits)
  from findIndex_Some [OF i(1)] have len: "i < length (stravaTokens d)" by simp
  from dist have dist': "distinct (stravaTokens d)"
    by (rule distinct_map [THEN iffD1, THEN conjunct1])
  define new where "new = \<lparr> tok_athleteId = Some a,
      tok_accessToken = access_token response, tok_refreshToken = refresh_token response,
      tok_expiresAt = now div 1000 + expires_in response,
      tok_scopes = sc \<lparr> tk_accessToken = access_token response,
                tk_refreshToken = refresh_token response,
                tk_expiresAt = now div 1000 + expires_in response,
                tk_scopes = None \<rparr>,
      tok_createdAt = Some now, tok_updatedAt = Some now \<rparr>"
  define d' where "d' = d\<lparr> stravaTokens := (stravaTokens d)[i := new] \<rparr>"
  have run: "refreshStoredToken endpoint now sc c token (Some d) =
      (Inr (c\<lparr> cl_accessToken := Some (access_token response),
                cl_expiresAt := Some (now div 1000 + expires_in response) \<rparr>), Some d',
       [RefreshToken (cl_clientId c) (cl_clientSecret c) (tok_refreshToken token)])"
    by (simp add: refreshStoredToken_def refreshAccessToken_def resp modifyData_returns_def
          loadData_def saveData_def upsertStravaToken_def a i(1) d'_def new_def)
  have "find ?p (stravaTokens d') = Some new"
    using find_update_first [OF i(1), of new] by (simp add: d'_def new_def)
  then have look: "getStravaToken d' (Some a) = Some new"
    by (simp add: getStravaToken_def)
  have "set (stravaTokens d') = insert new (set (stravaTokens d) - {token})"
    using set_update_distinct [OF dist' len, of new] i(2) by (simp add: d'_def)
  with run look show ?thesis
    by (auto simp: new_def)
qed

section \<open>The authorization flow\<close>

subsection \<open>The listener\<close>

lemma waiting_initialListener: "waiting initialListener"
  by (simp add: waiting_def initialListener_def)

lemma step_other_path:
  "ls_open ls \<Longrightarrow> rq_path rq \<noteq> ''/callback'' \<Longrightarrow>
     step ls (Incoming rq) = respond 404 ''text/plain'' ''Not found'' ls"
  by (simp add: step_def handleRequest_def)

lemma other_paths_keep_waiting:
  assumes "\<forall>ev \<in> set evs. \<exists>rq. ev = Incoming rq \<and> rq_path rq \<noteq> ''/callback''"
    and "ls_open ls" "ls_timerArmed ls" "ls_settled ls = None"
  shows "ls_open (foldl step ls evs) \<and> ls_timerArmed (foldl step ls evs)
         \<and> ls_settled (foldl step ls evs) = None"
  using assms
proof (induction evs arbitrary: ls)
  case Nil
  then show ?case by simp
next
  case (Cons ev evs)
  from Cons.prems(1) obtain rq where rq: "ev = Incoming rq" "rq_path rq \<noteq> ''/callback''"
    by auto
  with Cons.prems have s: "step ls ev = respond 404 ''text/plain'' ''Not found'' ls"
    by (simp add: step_other_path)
  have "ls_open (step ls ev)" "ls_timerArmed (step ls ev)" "ls_settled (step ls ev) = None"
    using Cons.prems by (simp_all add: s respond_def)
  with Cons.IH [of "step ls ev"] Cons.prems(1) show ?case by simp
qed

lemma closed_stays_closed:
  assumes "\<not> ls_open ls" "\<not> ls_timerArmed ls" "ls_settled ls = Some r"
  shows "\<not> ls_open (foldl step ls evs) \<and> \<not> ls_timerArmed (foldl step ls evs)
         \<and> ls_settled (foldl step ls evs) = Some r"
  using assms
proof (induction evs arbitrary: ls)
  case Nil
  then show ?case by simp
next
  case (Cons ev evs)
  have "\<not> ls_open (step ls ev)" "\<not> ls_timerArmed (step ls ev)" "ls_settled (step ls ev) = Some r"
    using Cons.prems by (cases ev; simp add: step_def settle_def)+
  with Cons.IH [of "step ls ev"] show ?case by simp
qed

lemma timer_fires:
  assumes "ls_timerArmed ls" "ls_settled ls = None"
  shows "\<not> ls_open (step ls TimerFired) \<and> \<not> ls_timerArmed (step ls TimerFired)
         \<and> ls_settled (step ls TimerFired) = Some (Inl AuthorizationTimeout)"
  using assms by (simp add: step_def settle_def)

text \<open>
  C8. A listener that is waiting (open, timer pending, promise pending: so it is when it is
  created, and after any requests to other paths) handles an incoming request as follows.
  Another path than \<^verbatim>\<open>/callback\<close>: response 404, and the listener keeps waiting.
  \<^verbatim>\<open>/callback\<close> with a non-empty \<^verbatim>\<open>error\<close>: response 400, the promise is rejected with the
  error string of the provider. \<^verbatim>\<open>/callback\<close> with a non-empty \<^verbatim>\<open>code\<close> (and no
  \<^verbatim>\<open>error\<close>, which is looked at first): response 200 with the HTML page, the promise is
  resolved with the code. \<^verbatim>\<open>/callback\<close> with neither: response 400, rejected. In the three
  terminal cases the timer is cleared and the server closed.
\<close>

theorem callback_handler:
  assumes "waiting ls"
  shows "(rq_path rq \<noteq> ''/callback'' \<longrightarrow>
            step ls (Incoming rq) =
              ls\<lparr> ls_responses := ls_responses ls
                    @ [\<lparr> rs_status = 404, rs_contentType = ''text/plain'', rs_body = ''Not found'' \<rparr>] \<rparr>
            \<and> waiting (step ls (Incoming rq)))
       \<and> (rq_path rq = ''/callback'' \<and> rq_error rq = Some e \<and> e \<noteq> [] \<longrightarrow>
            step ls (Incoming rq) =
              ls\<lparr> ls_open := False, ls_timerArmed := False,
                  ls_settled := Some (Inl (OAuthError e)),
                  ls_responses := ls_responses ls
                    @ [\<lparr> rs_status = 400, rs_contentType = ''text/plain'',
                         rs_body = ''OAuth error: '' @ e \<rparr>] \<rparr>)
       \<and> (rq_path rq = ''/callback'' \<and> \<not> truthy (rq_error rq) \<and> rq_code rq = Some code \<and> code \<noteq> [] \<longrightarrow>
            step ls (Incoming rq) =
              ls\<lparr> ls_open := False, ls_timerArmed := False,
                  ls_settled := Some (Inr code),
                  ls_responses := ls_responses ls
                    @ [\<lparr> rs_status = 200, rs_contentType = ''text/html'',
                         rs_body = confirmationPage \<rparr>] \<rparr>)
       \<and> (rq_path rq = ''/callback'' \<and> \<not> truthy (rq_error rq) \<and> \<not> truthy (rq_code rq) \<longrightarrow>
            step ls (Incoming rq) =
              ls\<lparr> ls_open := False, ls_timerArmed := False,
                  ls_settled := Some (Inl MissingAuthorizationCode),
                  ls_responses := ls_responses ls
                    @ [\<lparr> rs_status = 400, rs_contentType = ''text/plain'',
                         rs_body = ''Missing authorization code'' \<rparr>] \<rparr>)"
  using assms
  by (auto simp: waiting_def step_def handleRequest_def respond_def finish_def settle_def
        orNull_def truthy_def split: option.splits)

theorem callback_handler_witness:
  "step initialListener
     (Incoming \<lparr> rq_path = ''/favicon.ico'', rq_code = None, rq_error = None \<rparr>)
     = \<lparr> ls_open = True, ls_timerArmed = True, ls_settled = None,
         ls_responses = [\<lparr> rs_status = 404, rs_contentType = ''text/plain'',
                            rs_body = ''Not found'' \<rparr>] \<rparr>
   \<and> step initialListener
       (Incoming \<lparr> rq_path = ''/callback'', rq_code = None, rq_error = Some ''access_denied'' \<rparr>)
     = \<lparr> ls_open = False, ls_timerArmed = False,
         ls_settled = Some (Inl (OAuthError ''access_denied'')),
         ls_responses = [\<lparr> rs_status = 400, rs_contentType = ''text/plain'',
                            rs_body = ''OAuth error: access_denied'' \<rparr>] \<rparr>
   \<and> step initialListener
       (Incoming \<lparr> rq_path = ''/callback'', rq_code = Some ''c0de'', rq_error = None \<rparr>)
     = \<lparr> ls_open = False, ls_timerArmed = False, ls_settled = Some (Inr ''c0de''),
         ls_responses = [\<lparr> rs_status = 200, rs_contentType = ''text/html'',
                            rs_body = confirmationPage \<rparr>] \<rparr>
   \<and> step initialListener
       (Incoming \<lparr> rq_path = ''/callback'', rq_code = None, rq_error = None \<rparr>)
     = \<lparr> ls_open = False, ls_timerArmed = False,
         ls_settled = Some (Inl MissingAuthorizationCode),
         ls_responses = [\<lparr> rs_status = 400, rs_contentType = ''text/plain'',
                            rs_body = ''Missing authorization code'' \<rparr>] \<rparr>"
  using
    callback_handler [OF waiting_initialListener,
      of "\<lparr> rq_path = ''/favicon.ico'', rq_code = None, rq_error = None \<rparr>"]
    callback_handler [OF waiting_initialListener,
      of "\<lparr> rq_path = ''/callback'', rq_code = None, rq_error = Some ''access_denied'' \<rparr>"
         "''access_denied''"]
    callback_handler [OF waiting_initialListener,
      of "\<lparr> rq_path = ''/callback'', rq_code = Some ''c0de'', rq_error = None \<rparr>" _ "''c0de''"]
    callback_handler [OF waiting_initialListener,
      of "\<lparr> rq_path = ''/callback'', rq_code = None, rq_error = None \<rparr>"]
  by (simp add: initialListener_def truthy_def)

subsection \<open>The timeout\<close>

text \<open>
  C6. Let only requests to other paths than \<^verbatim>\<open>/callback\<close> come in (or none at all) before
  the timer fires. Then, whatever happens afterwards, \<open>authorize\<close> fails with the timeout
  error, wrapped as every error of \<open>authorize\<close> is; the server is closed; the client and the
  file are what they were, so no token record is written, and no request has been sent to
  the token endpoint.
\<close>

theorem authorize_timeout:
  assumes "\<forall>ev \<in> set before. \<exists>rq. ev = Incoming rq \<and> rq_path rq \<noteq> ''/callback''"
  shows "\<exists>ls. authorize endpoint api now (before @ TimerFired # later) c f
                = Some (Inl (AuthorizationFailed AuthorizationTimeout), c, ls, f, [])
              \<and> \<not> ls_open ls \<and> \<not> ls_timerArmed ls"
proof -
  define w where "w = foldl step initialListener before"
  have w: "ls_open w \<and> ls_timerArmed w \<and> ls_settled w = None"
    unfolding w_def by (rule other_paths_keep_waiting [OF assms]) (simp_all add: initialListener_def)
  define ls where "ls = createCallbackServer (before @ TimerFired # later)"
  have ls: "ls = foldl step (step w TimerFired) later"
    by (simp add: ls_def createCallbackServer_def w_def)
  from timer_fires [of w] w
  have "\<not> ls_open ls \<and> \<not> ls_timerArmed ls \<and> ls_settled ls = Some (Inl AuthorizationTimeout)"
    unfolding ls by (intro closed_stays_closed) simp_all
  then show ?thesis
    by (simp add: authorize_def ls_def [symmetric])
qed

theorem authorize_timeout_witness:
  "\<exists>ls. authorize rotatingEndpoint (\<lambda>bearer. ApiStatus 401 []) 2000000
           [Incoming \<lparr> rq_path = ''/favicon.ico'', rq_code = None, rq_error = None \<rparr>, TimerFired]
           freshClient (Some expiredStore)
         = Some (Inl (AuthorizationFailed AuthorizationTimeout), freshClient, ls, Some expiredStore, [])
       \<and> \<not> ls_open ls \<and> \<not> ls_timerArmed ls"
  using authorize_timeout [of "[Incoming \<lparr> rq_path = ''/favicon.ico'', rq_code = None, rq_error = None \<rparr>]"
      rotatingEndpoint "\<lambda>bearer. ApiStatus 401 []" 2000000 "[]" freshClient "Some expiredStore"]
  by simp

section \<open>Gear synchronisation\<close>

lemma find_append_cases:
  "find P (xs @ ys) = (case find P xs of None \<Rightarrow> find P ys | Some x \<Rightarrow> Some x)"
  by (induction xs) auto

lemma find_in_set: "find P xs = Some x \<Longrightarrow> x \<in> set xs \<and> P x"
  by (induction xs) (auto split: if_splits)

lemma findIndex_unique:
  assumes "e \<in> set xs" "distinct (map f xs)"
  shows "\<exists>i. findIndex (\<lambda>x. f x = f e) xs = Some i \<and> xs ! i = e"
proof -
  from assms(1) have "findIndex (\<lambda>x. f x = f e) xs \<noteq> None"
    by (auto simp: findIndex_None)
  then obtain i where i: "findIndex (\<lambda>x. f x = f e) xs = Some i" by auto
  from findIndex_Some [OF i] have il: "i < length xs" and fi: "f (xs ! i) = f e" by auto
  from assms(1) obtain j where j: "j < length xs" "xs ! j = e"
    by (auto simp: in_set_conv_nth)
  from il j fi have "map f xs ! i = map f xs ! j" by simp
  moreover from il j have "i < length (map f xs)" "j < length (map f xs)" by simp_all
  ultimately have "i = j"
    using assms(2) nth_eq_iff_index_eq [of "map f xs" i j] by blast
  with i j show ?thesis by auto
qed

lemma localId_columns:
  "map bike_stravaGearId xs = map bike_stravaGearId ys \<Longrightarrow> map bike_id xs = map bike_id ys \<Longrightarrow>
     map_option bike_id (find (\<lambda>b. bike_stravaGearId b = y) xs)
       = map_option bike_id (find (\<lambda>b. bike_stravaGearId b = y) ys)"
proof (induction xs arbitrary: ys)
  case Nil
  then show ?case by simp
next
  case (Cons x xs)
  then obtain z zs where "ys = z # zs" by (cases ys) auto
  with Cons show ?case by auto
qed

text \<open>
  One gear entry. When a bike with its gear identifier exists, the record at the position of
  that bike is overwritten, with the same id and the same gear identifier, and no identifier
  is drawn. Otherwise a record with the next identifier of the supply is appended.
\<close>

lemma syncBike_step:
  assumes inj: "inj gen" and ne: "\<forall>k. gen k \<noteq> []" and inv: "idsWellFormed gen n d"
    and step: "syncBike gen now (d, n) g = (d', n')"
  shows "idsWellFormed gen n' d' \<and> n \<le> n'
       \<and> (\<forall>y i. localId d y = Some i \<longrightarrow> localId d' y = Some i)
       \<and> localId d' (g_gear_id g) \<noteq> None
       \<and> (localId d (g_gear_id g) \<noteq> None \<longrightarrow> n' = n)
       \<and> (localId d (g_gear_id g) = None \<longrightarrow> n' = Suc n \<and> localId d' (g_gear_id g) = Some (gen n))"
proof (cases "find (\<lambda>b. bike_stravaGearId b = g_gear_id g) (bikes d)")
  case None
  from inv have fresh: "gen n \<notin> set (map bike_id (bikes d))"
    by (simp add: idsWellFormed_def)
  then have noidx: "findIndex (\<lambda>x. bike_id x = gen n) (bikes d) = None"
    by (force simp: findIndex_None)
  define r where "r = \<lparr> bike_id = gen n, bike_name = bikeName g,
      bike_type = orNull (g_description g), bike_stravaGearId = g_gear_id g,
      bike_isDefault = False, bike_notes = orNull (g_brand_model g),
      bike_createdAt = Some now, bike_updatedAt = Some now \<rparr>"
  from step None noidx have d': "bikes d' = bikes d @ [r]" and n': "n' = Suc n"
    by (auto simp: syncBike_def upsertBike_def Let_def r_def)
  have r: "bike_id r = gen n" "bike_stravaGearId r = g_gear_id g"
    by (simp_all add: r_def)
  have "gen n \<noteq> []" using ne by simp
  moreover have "gen k \<noteq> gen n" if "Suc n \<le> k" for k
    using that injD [OF inj, of k n] by auto
  ultimately have "idsWellFormed gen n' d'"
    using inv fresh by (auto simp: idsWellFormed_def d' n' r)
  moreover have "\<forall>y i. localId d y = Some i \<longrightarrow> localId d' y = Some i"
    by (auto simp: localId_def getBikeByStravaGearId_def d' find_append_cases split: option.splits)
  moreover have "localId d' (g_gear_id g) = Some (gen n)"
    using None by (simp add: localId_def getBikeByStravaGearId_def d' find_append_cases r)
  moreover have "localId d (g_gear_id g) = None"
    using None by (simp add: localId_def getBikeByStravaGearId_def)
  ultimately show ?thesis by (simp add: n')
next
  case (Some e)
  from find_in_set [OF Some] have e: "e \<in> set (bikes d)" "bike_stravaGearId e = g_gear_id g"
    by auto
  from e(1) have "bike_id e \<in> set (map bike_id (bikes d))" by simp
  with inv have ide: "bike_id e \<noteq> []"
    unfolding idsWellFormed_def by metis
  from inv have "distinct (map bike_id (bikes d))" by (simp add: idsWellFormed_def)
  from findIndex_unique [OF e(1) this] obtain i
    where i: "findIndex (\<lambda>x. bike_id x = bike_id e) (bikes d) = Some i" "bikes d ! i = e"
    by auto
  from findIndex_Some [OF i(1)] have il: "i < length (bikes d)" by simp
  define r where "r = \<lparr> bike_id = bike_id e, bike_name = bikeName g,
      bike_type = orNull (g_description g), bike_stravaGearId = g_gear_id g,
      bike_isDefault = bike_isDefault e, bike_notes = orNull (g_brand_model g),
      bike_createdAt = Some now, bike_updatedAt = Some now \<rparr>"
  from step Some ide i(1) have d': "bikes d' = (bikes d)[i := r]" and n': "n' = n"
    by (auto simp: syncBike_def upsertBike_def Let_def r_def)
  have ids: "map bike_id (bikes d') = map bike_id (bikes d)"
    using i(2) il by (simp add: d' map_update r_def list_update_same_conv)
  have gids: "map bike_stravaGearId (bikes d') = map bike_stravaGearId (bikes d)"
    using i(2) il e(2) by (simp add: d' map_update r_def list_update_same_conv)
  have same: "localId d' y = localId d y" for y
    unfolding localId_def getBikeByStravaGearId_def by (rule localId_columns [OF gids ids])
  have "idsWellFormed gen n' d'"
    using inv by (simp add: idsWellFormed_def ids n')
  moreover have "localId d (g_gear_id g) \<noteq> None"
    using Some by (simp add: localId_def getBikeByStravaGearId_def)
  ultimately show ?thesis by (simp add: same n')
qed

lemma syncBike_fold:
  assumes inj: "inj gen" and ne: "\<forall>k. gen k \<noteq> []"
  shows "idsWellFormed gen n d \<Longrightarrow> foldl (syncBike gen now) (d, n) gs = (d', n') \<Longrightarrow>
     idsWellFormed gen n' d' \<and> n \<le> n'
     \<and> (\<forall>y i. localId d y = Some i \<longrightarrow> localId d' y = Some i)
     \<and> (\<forall>g \<in> set gs. localId d' (g_gear_id g) \<noteq> None)
     \<and> ((\<forall>g \<in> set gs. localId d (g_gear_id g) \<noteq> None) \<longrightarrow> n' = n)"
proof (induction gs arbitrary: d n)
  case Nil
  then show ?case by simp
next
  case (Cons g gs)
  obtain d1 n1 where s1: "syncBike gen now (d, n) g = (d1, n1)"
    by (cases "syncBike gen now (d, n) g") auto
  note st = syncBike_step [OF inj ne Cons.prems(1) s1]
  from Cons.prems(2) s1 have rest: "foldl (syncBike gen now) (d1, n1) gs = (d', n')" by simp
  from st have inv1: "idsWellFormed gen n1 d1" by simp
  note ih = Cons.IH [OF inv1 rest]
  have keep: "\<forall>y i. localId d y = Some i \<longrightarrow> localId d' y = Some i"
    using st ih by blast
  have g: "localId d' (g_gear_id g) \<noteq> None"
  proof -
    from st obtain i where "localId d1 (g_gear_id g) = Some i" by auto
    with ih have "localId d' (g_gear_id g) = Some i" by blast
    then show ?thesis by simp
  qed
  have same: "n' = n" if all: "\<forall>g \<in> set (g # gs). localId d (g_gear_id g) \<noteq> None"
  proof -
    from all st have "n1 = n" by simp
    moreover have "\<forall>g \<in> set gs. localId d1 (g_gear_id g) \<noteq> None"
    proof
      fix h assume "h \<in> set gs"
      with all obtain i where "localId d (g_gear_id h) = Some i" by auto
      with st have "localId d1 (g_gear_id h) = Some i" by blast
      then show "localId d1 (g_gear_id h) \<noteq> None" by simp
    qed
    ultimately show ?thesis using ih by simp
  qed
  from st ih keep g same show ?case by auto
qed

lemma syncBikes_run:
  "syncBikes gen n now (Inr gs) f = (r, n', f') \<Longrightarrow>
     \<exists>d'. foldl (syncBike gen now) (fst (loadData f), n) (filter isBikeGear gs) = (d', n')
          \<and> f' = Some d'
          \<and> r = Inr (length (filter isBikeGear gs), length (filter isShoeGear gs))"
  by (auto simp: syncBikes_def modifyData_returns_def saveData_def split: prod.splits)

lemma inj_uuids: "inj uuids"
  by (simp add: inj_def uuids_def)

lemma idsWellFormed_garage: "idsWellFormed uuids 0 garage"
  by (simp add: idsWellFormed_def garage_def uuids_def)

subsection \<open>Stable local ids\<close>

text \<open>
  C7. Two gear syncs in a row, with any gear lists, on a store whose bike ids are
  well-formed. Every remote gear identifier that has a local id keeps it through both syncs:
  a matched bike is overwritten under its own id. Every bike entry of the first gear list has
  a local id after the first sync, and the same one after the second. A sync in which every
  bike entry finds a bike draws no new identifier; so the second of two syncs of the same
  list draws none.
\<close>

theorem syncBikes_local_id_stable:
  assumes inj: "inj gen" and ne: "\<forall>k. gen k \<noteq> []" and inv: "idsWellFormed gen n (fst (loadData f))"
    and first: "syncBikes gen n now (Inr gs) f = (r1, n1, f1)"
    and second: "syncBikes gen n1 now' (Inr gs') f1 = (r2, n2, f2)"
  shows "\<exists>d1 d2. f1 = Some d1 \<and> f2 = Some d2
           \<and> (\<forall>y i. localId (fst (loadData f)) y = Some i
                 \<longrightarrow> localId d1 y = Some i \<and> localId d2 y = Some i)
           \<and> (\<forall>g \<in> set gs. isBikeGear g \<longrightarrow>
                 (\<exists>i. localId d1 (g_gear_id g) = Some i \<and> localId d2 (g_gear_id g) = Some i))
           \<and> ((\<forall>g \<in> set gs. isBikeGear g \<longrightarrow> localId (fst (loadData f)) (g_gear_id g) \<noteq> None)
                \<longrightarrow> n1 = n)
           \<and> (gs' = gs \<longrightarrow> n2 = n1)"
proof -
  define d where "d = fst (loadData f)"
  note inv = inv [folded d_def]
  from syncBikes_run [OF first] obtain d1
    where run1: "foldl (syncBike gen now) (d, n) (filter isBikeGear gs) = (d1, n1)"
      and f1: "f1 = Some d1"
    by (auto simp: d_def)
  from syncBikes_run [OF second] f1 obtain d2
    where run2: "foldl (syncBike gen now') (d1, n1) (filter isBikeGear gs') = (d2, n2)"
      and f2: "f2 = Some d2"
    by (auto simp: loadData_def)
  note a = syncBike_fold [OF inj ne inv run1]
  from a have inv1: "idsWellFormed gen n1 d1" by simp
  note b = syncBike_fold [OF inj ne inv1 run2]
  have keep: "\<forall>y i. localId d y = Some i \<longrightarrow> localId d1 y = Some i \<and> localId d2 y = Some i"
    using a b by blast
  have stable: "\<forall>g \<in> set gs. isBikeGear g \<longrightarrow>
                 (\<exists>i. localId d1 (g_gear_id g) = Some i \<and> localId d2 (g_gear_id g) = Some i)"
  proof (intro ballI impI)
    fix g assume "g \<in> set gs" "isBikeGear g"
    then have "g \<in> set (filter isBikeGear gs)" by simp
    with a obtain i where "localId d1 (g_gear_id g) = Some i" by fastforce
    moreover with b have "localId d2 (g_gear_id g) = Some i" by blast
    ultimately show "\<exists>i. localId d1 (g_gear_id g) = Some i \<and> localId d2 (g_gear_id g) = Some i"
      by blast
  qed
  have none1: "(\<forall>g \<in> set gs. isBikeGear g \<longrightarrow> localId d (g_gear_id g) \<noteq> None) \<longrightarrow> n1 = n"
    using a by simp
  have none2: "gs' = gs \<longrightarrow> n2 = n1"
  proof
    assume "gs' = gs"
    moreover from a have "\<forall>g \<in> set (filter isBikeGear gs). localId d1 (g_gear_id g) \<noteq> None"
      by simp
    ultimately show "n2 = n1" using b by simp
  qed
  from f1 f2 keep stable none1 none2 show ?thesis
    unfolding d_def by blast
qed

theorem syncBikes_local_id_stable_witness:
  "\<exists>r1 n1 d1 r2 n2 d2.
     syncBikes uuids 0 5000 (Inr exampleGears) (Some garage) = (r1, n1, Some d1)
     \<and> syncBikes uuids n1 9000 (Inr exampleGears) (Some d1) = (r2, n2, Some d2)
     \<and> localId d1 (Some ''b1'') = Some ''local-1'' \<and> localId d2 (Some ''b1'') = Some ''local-1''
     \<and> (\<exists>i. localId d1 (Some ''b3'') = Some i \<and> localId d2 (Some ''b3'') = Some i)
     \<and> n2 = n1"
proof -
  obtain r1 n1 f1 where first: "syncBikes uuids 0 5000 (Inr exampleGears) (Some garage) = (r1, n1, f1)"
    by (cases "syncBikes uuids 0 5000 (Inr exampleGears) (Some garage)") auto
  obtain r2 n2 f2 where second: "syncBikes uuids n1 9000 (Inr exampleGears) f1 = (r2, n2, f2)"
    by (cases "syncBikes uuids n1 9000 (Inr exampleGears) f1") auto
  have ne: "\<forall>k. uuids k \<noteq> []" by (simp add: uuids_def)
  have inv: "idsWellFormed uuids 0 (fst (loadData (Some garage)))"
    by (simp add: loadData_def idsWellFormed_garage)
  from syncBikes_local_id_stable [OF inj_uuids ne inv first second]
  obtain d1 d2 where f: "f1 = Some d1" "f2 = Some d2"
    and keep: "\<forall>y i. localId (fst (loadData (Some garage))) y = Some i
                 \<longrightarrow> localId d1 y = Some i \<and> localId d2 y = Some i"
    and stable: "\<forall>g \<in> set exampleGears. isBikeGear g \<longrightarrow>
                 (\<exists>i. localId d1 (g_gear_id g) = Some i \<and> localId d2 (g_gear_id g) = Some i)"
    and same: "n2 = n1"
    by blast
  have "localId (fst (loadData (Some garage))) (Some ''b1'') = Some ''local-1''"
    by (simp add: loadData_def localId_def getBikeByStravaGearId_def garage_def)
  with keep have b1: "localId d1 (Some ''b1'') = Some ''local-1''" "localId d2 (Some ''b1'') = Some ''local-1''"
    by blast+
  have "gearOf 3 (Some ''b3'') ''Commuter'' \<in> set exampleGears" "isBikeGear (gearOf 3 (Some ''b3'') ''Commuter'')"
    by (simp_all add: exampleGears_def isBikeGear_def gearOf_def truthy_def)
  with stable have "\<exists>i. localId d1 (g_gear_id (gearOf 3 (Some ''b3'') ''Commuter'')) = Some i
      \<and> localId d2 (g_gear_id (gearOf 3 (Some ''b3'') ''Commuter'')) = Some i"
    by blast
  then have b3: "\<exists>i. localId d1 (Some ''b3'') = Some i \<and> localId d2 (Some ''b3'') = Some i"
    by (simp add: gearOf_def)
  from first second f b1 b3 same show ?thesis by blast
qed

subsection \<open>Only fully resolved bikes\<close>

lemma syncBike_provenance:
  "syncBike gen now (d, n) g = (d', n') \<Longrightarrow> b \<in> set (bikes d') \<Longrightarrow>
     b \<in> set (bikes d) \<or> (bike_stravaGearId b = g_gear_id g \<and> bike_name b = bikeName g)"
  by (auto simp: syncBike_def upsertBike_def Let_def split: option.splits
           dest!: set_update_subset_insert [THEN subsetD])

lemma syncBike_fold_provenance:
  "foldl (syncBike gen now) (d, n) gs = (d', n') \<Longrightarrow> b \<in> set (bikes d') \<Longrightarrow>
     b \<in> set (bikes d)
     \<or> (\<exists>g \<in> set gs. bike_stravaGearId b = g_gear_id g \<and> bike_name b = bikeName g)"
proof (induction gs arbitrary: d n)
  case Nil
  then show ?case by simp
next
  case (Cons g gs)
  obtain d1 n1 where s1: "syncBike gen now (d, n) g = (d1, n1)"
    by (cases "syncBike gen now (d, n) g") auto
  with Cons.prems have "foldl (syncBike gen now) (d1, n1) gs = (d', n')" by simp
  from Cons.IH [OF this Cons.prems(2)] syncBike_provenance [OF s1, of b]
  show ?case by auto
qed

text \<open>
  C9. With any gear list \<open>syncBikes\<close> returns and saves the store. Every bike record of the
  saved store either was in the store as loaded, or carries the gear identifier and the name
  of a gear entry with \<^verbatim>\<open>resource_state\<close> 3 and a non-empty gear identifier. And the
  entries with another \<^verbatim>\<open>resource_state\<close> have no effect at all: without them the result,
  the identifiers drawn and the saved store are the same.
\<close>

theorem syncBikes_only_resolved_gear:
  "\<exists>counts n' d'.
     syncBikes gen n now (Inr gs) f = (Inr counts, n', Some d')
     \<and> (\<forall>b \<in> set (bikes d').
           b \<in> set (bikes (fst (loadData f)))
           \<or> (\<exists>g \<in> set gs. g_resource_state g = 3 \<and> truthy (g_gear_id g)
                 \<and> bike_stravaGearId b = g_gear_id g \<and> bike_name b = bikeName g))
     \<and> syncBikes gen n now (Inr (filter (\<lambda>g. g_resource_state g = 3) gs)) f
         = (Inr counts, n', Some d')"
proof -
  obtain r n' f' where run: "syncBikes gen n now (Inr gs) f = (r, n', f')"
    by (cases "syncBikes gen n now (Inr gs) f") auto
  from syncBikes_run [OF run] obtain d'
    where fold: "foldl (syncBike gen now) (fst (loadData f), n) (filter isBikeGear gs) = (d', n')"
      and f': "f' = Some d'"
      and r: "r = Inr (length (filter isBikeGear gs), length (filter isShoeGear gs))"
    by blast
  have prov: "\<forall>b \<in> set (bikes d').
           b \<in> set (bikes (fst (loadData f)))
           \<or> (\<exists>g \<in> set gs. g_resource_state g = 3 \<and> truthy (g_gear_id g)
                 \<and> bike_stravaGearId b = g_gear_id g \<and> bike_name b = bikeName g)"
  proof
    fix b assume "b \<in> set (bikes d')"
    from syncBike_fold_provenance [OF fold this]
    show "b \<in> set (bikes (fst (loadData f)))
           \<or> (\<exists>g \<in> set gs. g_resource_state g = 3 \<and> truthy (g_gear_id g)
                 \<and> bike_stravaGearId b = g_gear_id g \<and> bike_name b = bikeName g)"
      by (auto simp: isBikeGear_def)
  qed
  have filt: "filter (\<lambda>g. g_resource_state g = 3 \<and> isBikeGear g) gs = filter isBikeGear gs"
    "filter (\<lambda>g. g_resource_state g = 3 \<and> isShoeGear g) gs = filter isShoeGear gs"
    by (rule filter_cong; auto simp: isBikeGear_def isShoeGear_def)+
  have "syncBikes gen n now (Inr (filter (\<lambda>g. g_resource_state g = 3) gs)) f
          = syncBikes gen n now (Inr gs) f"
    by (simp add: syncBikes_def filt)
  with run f' r prov show ?thesis by simp
qed

theorem syncBikes_only_resolved_gear_witness:
  "\<exists>counts n' d'.
     syncBikes uuids 0 5000 (Inr exampleGears) (Some initialData) = (Inr counts, n', Some d')
     \<and> Some ''b2'' \<notin> set (map bike_stravaGearId (bikes d'))"
proof -
  from syncBikes_only_resolved_gear [of uuids 0 5000 exampleGears "Some initialData"]
  obtain counts n' d'
    where run: "syncBikes uuids 0 5000 (Inr exampleGears) (Some initialData)
                  = (Inr counts, n', Some d')"
      and prov: "\<forall>b \<in> set (bikes d').
           b \<in> set (bikes (fst (loadData (Some initialData))))
           \<or> (\<exists>g \<in> set exampleGears. g_resource_state g = 3 \<and> truthy (g_gear_id g)
                 \<and> bike_stravaGearId b = g_gear_id g \<and> bike_name b = bikeName g)"
    by blast
  have "bike_stravaGearId b \<noteq> Some ''b2''" if "b \<in> set (bikes d')" for b
  proof -
    from prov that have "\<exists>g \<in> set exampleGears. g_resource_state g = 3
        \<and> bike_stravaGearId b = g_gear_id g"
      by (auto simp: loadData_def initialData_def)
    then show ?thesis
      by (auto simp: exampleGears_def gearOf_def)
  qed
  then have "Some ''b2'' \<notin> set (map bike_stravaGearId (bikes d'))"
    by (metis (no_types, lifting) imageE set_map)
  with run show ?thesis by blast
qed

end
